theory Spec2Isabelle
  imports Main
begin

section \<open>Data model\<close>

text \<open>
  The program reads three kinds of objects that the task library hands to it: the merged
  task document (\<open>mergedTaskfile\<close>), the inclusion graph (\<open>taskfileGraph\<close>) and the
  result of the graph library's topological sort. Their Go declarations live in the
  libraries, not in \<open>main.go\<close>; the records below carry exactly the fields that
  \<open>main.go\<close> reads.
\<close>

text \<open>\<open>ast.Dep\<close>: \<open>main.go\<close> reads \<open>dep.Task\<close> only.\<close>

record Dep =
  Dep_Task :: string

text \<open>\<open>ast.Cmd\<close>: \<open>main.go\<close> reads \<open>cmd.Cmd\<close> and \<open>cmd.Task\<close>, two independent strings.\<close>

record Cmd =
  Cmd_Cmd :: string
  Cmd_Task :: string

text \<open>\<open>ast.Task\<close>: \<open>main.go\<close> reads \<open>task.Desc\<close>, \<open>task.Deps\<close> and \<open>task.Cmds\<close>.\<close>

record Task =
  Desc :: string
  Deps :: "Dep list"
  Cmds :: "Cmd list"

text \<open>\<open>ast.Include\<close>: \<open>main.go\<close> reads \<open>include.Taskfile\<close>, the locator as written.\<close>

record Include =
  Include_Taskfile :: string

text \<open>
  Modelled from the spec: the ordered maps \<open>ast.Tasks\<close> and \<open>ast.Includes\<close> of the task
  library are not in \<open>src/\<close>. The spec describes the task document as a mapping from
  task name to task that is iterated "in its provided iteration order"; it is an
  association list here, \<open>All\<close> walks it front to back and \<open>Get\<close> looks a key up.
\<close>

record Taskfile =
  Location :: string
  Version :: string
  Includes :: "(string \<times> Include) list"
  Tasks :: "(string \<times> Task) list"

definition Get :: "Taskfile \<Rightarrow> string \<Rightarrow> Task option" where
  "Get tf taskName = map_of (Tasks tf) taskName"

text \<open>A vertex of the inclusion graph: \<open>vertex.URI\<close> and \<open>vertex.Taskfile\<close>.\<close>

record TaskfileVertex =
  URI :: string
  Vertex_Taskfile :: Taskfile

text \<open>
  Modelled from the spec: the graph type of the graph library is not in \<open>src/\<close>. The
  spec describes a directed graph whose vertices are resolved documents; it is a table
  from vertex hash to vertex together with a list of edges. An edge \<open>(a, b)\<close> says
  that the document \<open>a\<close> includes the document \<open>b\<close>: the including document is the
  source of the edge.
\<close>

record TaskfileGraph =
  vertices :: "(string \<times> TaskfileVertex) list"
  edges :: "(string \<times> string) list"

definition Vertex :: "TaskfileGraph \<Rightarrow> string \<Rightarrow> TaskfileVertex option" where
  "Vertex g hash = map_of (vertices g) hash"

text \<open>
  What the run can touch: the two objects built by the provider, and standard output.
  Every operation of \<open>main.go\<close> is a function from this state to this state.
\<close>

record world =
  taskfileGraph :: TaskfileGraph
  mergedTaskfile :: Taskfile
  stdout :: string

section \<open>Printing\<close>

text \<open>\<open>fmt.Printf\<close> with its arguments already substituted: the text goes to the end of
  standard output and nothing else changes.\<close>

definition printf :: "string \<Rightarrow> world \<Rightarrow> world" where
  "printf s w = w\<lparr>stdout := stdout w @ s\<rparr>"

text \<open>A \<open>for ... range\<close> loop whose body may fail to return: it stops at the first
  iteration that does not return.\<close>

fun forEach :: "'a list \<Rightarrow> ('a \<Rightarrow> world \<Rightarrow> world option) \<Rightarrow> world \<Rightarrow> world option" where
  "forEach [] body w = Some w"
| "forEach (x # xs) body w =
     (case body x w of None \<Rightarrow> None | Some w' \<Rightarrow> forEach xs body w')"

section \<open>\<open>showDependencyTree\<close> (main.go, lines 172 to 201)\<close>

text \<open>The loop \<open>for i := 0; i < depth; i++ { indent += "  " }\<close>.\<close>

function indent_loop :: "nat \<Rightarrow> nat \<Rightarrow> string \<Rightarrow> string" where
  "indent_loop i depth indent =
     (if i < depth then indent_loop (Suc i) depth (indent @ ''  '') else indent)"
  by pat_completeness auto
termination
  by (relation "measure (\<lambda>(i, depth, indent). depth - i)") auto

text \<open>
  The recursion of \<open>showDependencyTree\<close> has no bound in the source. The first argument
  is the number of nested calls the run may still open; \<open>None\<close> says that this number
  was not enough, so a call that returns \<open>None\<close> for every number never returns.
  The parameter \<open>tf\<close> of the source points to the merged document, which the model
  reads from the state.
\<close>

primrec showDependencyTree :: "nat \<Rightarrow> string \<Rightarrow> nat \<Rightarrow> world \<Rightarrow> world option" where
  "showDependencyTree 0 taskName depth w = None"
| "showDependencyTree (Suc fuel) taskName depth w =
     (let indent = indent_loop 0 depth '''' in
      case Get (mergedTaskfile w) taskName of
        None \<Rightarrow> Some (printf (indent @ taskName @ '' (not found)\<newline>'') w)
      | Some task \<Rightarrow>
          (let w1 = printf (indent @ taskName) w;
               w2 = (if Desc task \<noteq> '''' then printf ('' - '' @ Desc task) w1 else w1);
               w3 = printf ''\<newline>'' w2
           in case forEach (Deps task)
                     (\<lambda>dep w'. showDependencyTree fuel (Dep_Task dep) (depth + 1) w') w3 of
                None \<Rightarrow> None
              | Some w4 \<Rightarrow>
                  forEach (Cmds task)
                    (\<lambda>cmd w'. if Cmd_Task cmd \<noteq> ''''
                               then showDependencyTree fuel (Cmd_Task cmd) (depth + 1) w'
                               else Some w') w4))"

section \<open>The inclusion graph listing (main.go, lines 78 to 99)\<close>

text \<open>\<open>%d\<close> of \<open>fmt\<close> for a number that is not negative.\<close>

fun decimal :: "nat \<Rightarrow> string" where
  "decimal n =
     (if n < 10 then [''0123456789'' ! n]
      else decimal (n div 10) @ [''0123456789'' ! (n mod 10)])"

text \<open>The inner loop over \<open>vertex.Taskfile.Includes.All()\<close> (lines 94 to 96).\<close>

definition printInclude :: "string \<times> Include \<Rightarrow> world \<Rightarrow> world" where
  "printInclude = (\<lambda>(namespace, include).
     printf (''     - '' @ namespace @ '': '' @ Include_Taskfile include @ ''\<newline>''))"

text \<open>
  The loop \<open>for i, hash := range hashes\<close> (lines 84 to 98); \<open>i\<close> is the index of the
  current hash. A hash that the graph does not know is skipped (\<open>continue\<close>) and still
  takes its index.
\<close>

primrec inclusion_loop :: "nat \<Rightarrow> string list \<Rightarrow> world \<Rightarrow> world" where
  "inclusion_loop i [] w = w"
| "inclusion_loop i (hash # hashes) w =
     (case Vertex (taskfileGraph w) hash of
        None \<Rightarrow> inclusion_loop (i + 1) hashes w
      | Some vertex \<Rightarrow>
          (let w1 = printf (decimal (i + 1) @ ''. Taskfile: '' @ URI vertex @ ''\<newline>'') w;
               w2 = (if length (Includes (Vertex_Taskfile vertex)) > 0
                     then fold printInclude (Includes (Vertex_Taskfile vertex))
                            (printf ''   Includes:\<newline>'' w1)
                     else w1)
           in inclusion_loop (i + 1) hashes w2))"

section \<open>The flat task listing (main.go, lines 105 to 131)\<close>

text \<open>The body of the loop over \<open>task.Deps\<close> (line 115).\<close>

definition listDep :: "Dep \<Rightarrow> world \<Rightarrow> world" where
  "listDep dep = printf (''    - '' @ Dep_Task dep @ ''\<newline>'')"

text \<open>The body of the loop over \<open>task.Cmds\<close> (lines 122 to 127): two independent tests.\<close>

definition listCmd :: "Cmd \<Rightarrow> world \<Rightarrow> world" where
  "listCmd cmd w =
     (let w1 = (if Cmd_Cmd cmd \<noteq> ''''
                then printf (''    - cmd: '' @ Cmd_Cmd cmd @ ''\<newline>'') w
                else w)
      in if Cmd_Task cmd \<noteq> ''''
         then printf (''    - task: '' @ Cmd_Task cmd @ ''\<newline>'') w1
         else w1)"

text \<open>The body of the loop over \<open>mergedTaskfile.Tasks.All(nil)\<close> (lines 106 to 130).\<close>

definition listTask :: "string \<times> Task \<Rightarrow> world \<Rightarrow> world" where
  "listTask = (\<lambda>(taskName, task) w.
     (let w1 = printf (''Task: '' @ taskName) w;
          w2 = (if Desc task \<noteq> '''' then printf ('' - '' @ Desc task) w1 else w1);
          w3 = printf ''\<newline>'' w2;
          w4 = (if length (Deps task) > 0
                then fold listDep (Deps task) (printf ''  Dependencies:\<newline>'' w3)
                else w3);
          w5 = (if length (Cmds task) > 0
                then fold listCmd (Cmds task) (printf ''  Commands:\<newline>'' w4)
                else w4)
      in printf ''\<newline>'' w5))"

definition flatTaskLister :: "world \<Rightarrow> world" where
  "flatTaskLister w = fold listTask (Tasks (mergedTaskfile w)) w"

section \<open>\<open>buildTaskDependencyGraph\<close> (main.go, lines 147 to 169)\<close>

text \<open>
  The function fills a map of its own, \<open>deps\<close>, and returns it; \<open>tf\<close> is the merged
  document of the state. The second component is the state it leaves behind.
\<close>

definition buildTaskDependencyGraph :: "world \<Rightarrow> (string \<rightharpoonup> string list) \<times> world" where
  "buildTaskDependencyGraph w =
     (fold (\<lambda>(taskName, task) deps.
              (let taskDeps0 = fold (\<lambda>dep taskDeps. taskDeps @ [Dep_Task dep]) (Deps task) [];
                   taskDeps1 = fold (\<lambda>cmd taskDeps.
                                  if Cmd_Task cmd \<noteq> '''' then taskDeps @ [Cmd_Task cmd]
                                  else taskDeps) (Cmds task) taskDeps0
               in deps(taskName \<mapsto> taskDeps1)))
        (Tasks (mergedTaskfile w)) Map.empty,
      w)"

section \<open>\<open>main\<close> (main.go, lines 72 to 143)\<close>

text \<open>How a run ends: \<open>main\<close> returns, or a \<open>panic\<close> stops it with a message.\<close>

datatype outcome = Returned | Panicked string

text \<open>The last block of \<open>main\<close> (lines 134 to 143).\<close>

definition treeFromStart :: "nat \<Rightarrow> string \<Rightarrow> world \<Rightarrow> world option" where
  "treeFromStart fuel startTask w =
     (let w1 = printf (''=== Complete Dependency Tree from ''
                         @ [CHR 0x27] @ startTask @ [CHR 0x27] @ '' task ===\<newline>'') w
      in if Get (mergedTaskfile w1) startTask \<noteq> None
         then showDependencyTree fuel startTask 0 w1
         else Some (fold (\<lambda>(taskName, task). printf (''  - '' @ taskName @ ''\<newline>''))
                      (Tasks (mergedTaskfile w1))
                      (printf ''Available tasks:\<newline>''
                         (printf (''Task '' @ [CHR 0x27] @ startTask @ [CHR 0x27]
                                    @ '' not found\<newline>'') w1))))"

text \<open>
  \<open>main\<close> from the first line it prints. What comes before (flags, the reader, \<open>Read\<close>
  and \<open>Merge\<close>) belongs to the provider: the state holds what it delivered.
  \<open>TopologicalSort\<close> is the graph library's function, \<open>Inl\<close> its error.
\<close>

definition main :: "(TaskfileGraph \<Rightarrow> string + string list) \<Rightarrow> nat \<Rightarrow> string \<Rightarrow> world
    \<Rightarrow> (outcome \<times> world) option" where
  "main TopologicalSort fuel startTask w =
     (let w1 = printf ''=== Taskfile Graph Analysis ===\<newline>'' w;
          w2 = printf (''Location: '' @ Location (mergedTaskfile w1) @ ''\<newline>'') w1;
          w3 = printf (''Version: '' @ Version (mergedTaskfile w2) @ ''\<newline>'') w2;
          w4 = printf ''\<newline>'' w3;
          w5 = printf ''=== Taskfile Inclusion Graph ===\<newline>'' w4
      in case TopologicalSort (taskfileGraph w5) of
           Inl err \<Rightarrow> Some (Panicked (''Failed to sort graph: '' @ err), w5)
         | Inr hashes \<Rightarrow>
             (let w6 = inclusion_loop 0 hashes w5;
                  w7 = printf ''\<newline>'' w6;
                  w8 = printf ''=== Task Dependencies ===\<newline>'' w7;
                  w9 = snd (buildTaskDependencyGraph w8);
                  w10 = flatTaskLister w9
              in map_option (Pair Returned) (treeFromStart fuel startTask w10)))"

text \<open>
  Modelled from the spec: the topological sort of the graph library is not in \<open>src/\<close>.
  The spec asks for a topological ordering of the vertices, and for a failure when the
  graph has a cycle. A topological ordering holds every vertex once and places the
  source of every edge before its target; with the edges of the inclusion graph this
  places an including document before the documents it includes.
\<close>

definition precedes :: "string \<Rightarrow> string \<Rightarrow> string list \<Rightarrow> bool" where
  "precedes a b hashes \<longleftrightarrow> b \<in> set (dropWhile (\<lambda>h. h \<noteq> a) hashes) \<and> a \<noteq> b"

definition topological_order :: "TaskfileGraph \<Rightarrow> string list \<Rightarrow> bool" where
  "topological_order g hashes \<longleftrightarrow>
     distinct hashes \<and> set hashes = set (map fst (vertices g)) \<and>
     list_all (\<lambda>(a, b). precedes a b hashes) (edges g)"

definition TopologicalSort_spec :: "TaskfileGraph \<Rightarrow> string + string list \<Rightarrow> bool" where
  "TopologicalSort_spec g r =
     (case r of
        Inl err \<Rightarrow> \<not> acyclic (set (edges g))
      | Inr hashes \<Rightarrow> acyclic (set (edges g)) \<and> topological_order g hashes)"

section \<open>Notions used to state the properties\<close>

text \<open>
  The names that a call of \<open>showDependencyTree\<close> on a task goes into, in the order of
  the two loops: the explicit dependencies, then the task references of the commands
  that are not empty.
\<close>

definition children :: "Task \<Rightarrow> string list" where
  "children task =
     map Dep_Task (Deps task) @ filter (\<lambda>t. t \<noteq> []) (map Cmd_Task (Cmds task))"

text \<open>The line that \<open>showDependencyTree\<close> prints for a task that it finds (lines 184 to 188).\<close>

definition treeLine :: "nat \<Rightarrow> string \<Rightarrow> Task \<Rightarrow> string" where
  "treeLine depth taskName task =
     replicate (2 * depth) CHR '' '' @ taskName
       @ (if Desc task = [] then [] else '' - '' @ Desc task) @ ''\<newline>''"

text \<open>
  The reference graph of a document: an edge from the name of a task to each name its
  call goes into. \<open>acyclic_from\<close> says that no name that can be reached from the start
  lies on a cycle of this graph.
\<close>

definition refs :: "Taskfile \<Rightarrow> (string \<times> string) set" where
  "refs tf =
     (\<Union>a \<in> set (map fst (Tasks tf)).
        case Get tf a of None \<Rightarrow> {} | Some task \<Rightarrow> Pair a ` set (children task))"

definition reachable :: "Taskfile \<Rightarrow> string \<Rightarrow> string set" where
  "reachable tf start = insert start ((refs tf)\<^sup>+ `` {start})"

definition acyclic_from :: "Taskfile \<Rightarrow> string \<Rightarrow> bool" where
  "acyclic_from tf start \<longleftrightarrow> (\<forall>x \<in> reachable tf start. (x, x) \<notin> (refs tf)\<^sup>+)"

text \<open>The text that one pass of each printing loop of \<open>main\<close> adds to standard output.\<close>

definition includeLine :: "string \<times> Include \<Rightarrow> string" where
  "includeLine = (\<lambda>(namespace, include).
     ''     - '' @ namespace @ '': '' @ Include_Taskfile include @ ''\<newline>'')"

definition vertexLines :: "nat \<Rightarrow> TaskfileVertex \<Rightarrow> string" where
  "vertexLines position vertex =
     decimal position @ ''. Taskfile: '' @ URI vertex @ ''\<newline>''
       @ (if Includes (Vertex_Taskfile vertex) = [] then []
          else ''   Includes:\<newline>'' @ concat (map includeLine (Includes (Vertex_Taskfile vertex))))"

definition cmdLines :: "Cmd \<Rightarrow> string" where
  "cmdLines cmd =
     (if Cmd_Cmd cmd = [] then [] else ''    - cmd: '' @ Cmd_Cmd cmd @ ''\<newline>'')
       @ (if Cmd_Task cmd = [] then [] else ''    - task: '' @ Cmd_Task cmd @ ''\<newline>'')"

definition taskLines :: "string \<times> Task \<Rightarrow> string" where
  "taskLines = (\<lambda>(taskName, task).
     ''Task: '' @ taskName @ (if Desc task = [] then [] else '' - '' @ Desc task) @ ''\<newline>''
       @ (if Deps task = [] then []
          else ''  Dependencies:\<newline>''
                 @ concat (map (\<lambda>dep. ''    - '' @ Dep_Task dep @ ''\<newline>'') (Deps task)))
       @ (if Cmds task = [] then []
          else ''  Commands:\<newline>'' @ concat (map cmdLines (Cmds task)))
       @ ''\<newline>'')"

section \<open>Example documents\<close>

text \<open>
  The documents of the scenarios of the specification: \<open>example_doc\<close> defines \<open>build\<close>
  with a literal command, \<open>test\<close> which depends on \<open>build\<close>, and \<open>default\<close> which calls
  \<open>test\<close>; \<open>chain_doc\<close> is a chain of explicit dependencies; \<open>cyclic_doc\<close> has two
  tasks that depend on each other; in \<open>dangling_doc\<close> the task \<open>default\<close> depends on
  a name that no task has; \<open>only_default_doc\<close> contains only \<open>default\<close>.
\<close>

definition literalCmd :: "string \<Rightarrow> Cmd" where
  "literalCmd s = \<lparr>Cmd_Cmd = s, Cmd_Task = []\<rparr>"

definition taskCall :: "string \<Rightarrow> Cmd" where
  "taskCall t = \<lparr>Cmd_Cmd = [], Cmd_Task = t\<rparr>"

definition example_doc :: Taskfile where
  "example_doc =
     \<lparr>Location = ''Taskfile.yaml'', Version = ''3'', Includes = [],
      Tasks =
        [(''build'', \<lparr>Desc = [], Deps = [], Cmds = [literalCmd ''echo hi'']\<rparr>),
         (''test'', \<lparr>Desc = [], Deps = [\<lparr>Dep_Task = ''build''\<rparr>], Cmds = []\<rparr>),
         (''default'', \<lparr>Desc = [], Deps = [], Cmds = [taskCall ''test'']\<rparr>)]\<rparr>"

definition chain_doc :: Taskfile where
  "chain_doc =
     \<lparr>Location = ''Taskfile.yaml'', Version = ''3'', Includes = [],
      Tasks =
        [(''a'', \<lparr>Desc = [], Deps = [\<lparr>Dep_Task = ''b''\<rparr>], Cmds = [literalCmd ''echo a'']\<rparr>),
         (''b'', \<lparr>Desc = [], Deps = [\<lparr>Dep_Task = ''c''\<rparr>], Cmds = []\<rparr>),
         (''c'', \<lparr>Desc = [], Deps = [], Cmds = []\<rparr>)]\<rparr>"

definition cyclic_doc :: Taskfile where
  "cyclic_doc =
     \<lparr>Location = ''Taskfile.yaml'', Version = ''3'', Includes = [],
      Tasks =
        [(''a'', \<lparr>Desc = [], Deps = [\<lparr>Dep_Task = ''b''\<rparr>], Cmds = []\<rparr>),
         (''b'', \<lparr>Desc = [], Deps = [\<lparr>Dep_Task = ''a''\<rparr>], Cmds = []\<rparr>)]\<rparr>"

definition dangling_doc :: Taskfile where
  "dangling_doc =
     \<lparr>Location = ''Taskfile.yaml'', Version = ''3'', Includes = [],
      Tasks =
        [(''build'', \<lparr>Desc = ''compile'', Deps = [], Cmds = [literalCmd ''echo hi'']\<rparr>),
         (''default'', \<lparr>Desc = [], Deps = [\<lparr>Dep_Task = ''missing''\<rparr>],
                        Cmds = [taskCall ''build'']\<rparr>)]\<rparr>"

definition only_default_doc :: Taskfile where
  "only_default_doc =
     \<lparr>Location = ''Taskfile.yaml'', Version = ''3'', Includes = [],
      Tasks = [(''default'', \<lparr>Desc = [], Deps = [], Cmds = [literalCmd ''echo hi'']\<rparr>)]\<rparr>"

text \<open>
  Two inclusion graphs over the documents \<open>root\<close> and \<open>lib\<close>: in the first \<open>root\<close>
  includes \<open>lib\<close>, in the second each includes the other.
\<close>

definition example_graph :: TaskfileGraph where
  "example_graph =
     \<lparr>vertices =
        [(''root'', \<lparr>URI = ''root'',
            Vertex_Taskfile = example_doc\<lparr>Includes := [(''lib'', \<lparr>Include_Taskfile = ''./lib''\<rparr>)]\<rparr>\<rparr>),
         (''lib'', \<lparr>URI = ''lib'', Vertex_Taskfile = only_default_doc\<rparr>)],
      edges = [(''root'', ''lib'')]\<rparr>"

definition cyclic_graph :: TaskfileGraph where
  "cyclic_graph =
     \<lparr>vertices =
        [(''root'', \<lparr>URI = ''root'', Vertex_Taskfile = only_default_doc\<rparr>),
         (''lib'', \<lparr>URI = ''lib'', Vertex_Taskfile = only_default_doc\<rparr>)],
      edges = [(''root'', ''lib''), (''lib'', ''root'')]\<rparr>"

text \<open>The state in which a run starts: nothing printed yet.\<close>

definition start_world :: "TaskfileGraph \<Rightarrow> Taskfile \<Rightarrow> world" where
  "start_world g tf = \<lparr>taskfileGraph = g, mergedTaskfile = tf, stdout = []\<rparr>"

section \<open>Properties\<close>

lemma printf_fields [simp]:
  "taskfileGraph (printf s w) = taskfileGraph w"
  "mergedTaskfile (printf s w) = mergedTaskfile w"
  "stdout (printf s w) = stdout w @ s"
  by (simp_all add: printf_def)

lemma printf_printf: "printf t (printf s w) = printf (s @ t) w"
  by (simp add: printf_def)

lemma printf_Nil [simp]: "printf [] w = w"
  by (simp add: printf_def)

lemma indent_loop_eq:
  "indent_loop i depth s = s @ replicate (2 * (depth - i)) CHR '' ''"
proof (induction i depth s rule: indent_loop.induct)
  case (1 i depth indent)
  show ?case
  proof (cases "i < depth")
    case True
    then have "depth - i = Suc (depth - Suc i)" by simp
    with True "1" show ?thesis
      by (simp add: replicate_append_same)
  next
    case False
    then show ?thesis by simp
  qed
qed

lemma indent_eq: "indent_loop 0 depth [] = replicate (2 * depth) CHR '' ''"
  by (simp add: indent_loop_eq del: indent_loop.simps)

lemma forEach_append:
  "forEach (xs @ ys) body w =
     (case forEach xs body w of None \<Rightarrow> None | Some w' \<Rightarrow> forEach ys body w')"
  by (induction xs arbitrary: w) (auto split: option.splits)

lemma forEach_map: "forEach (map g xs) body w = forEach xs (\<lambda>x. body (g x)) w"
  by (induction xs arbitrary: w) (auto split: option.splits)

lemma forEach_cmds:
  "forEach cmds (\<lambda>cmd w'. if Cmd_Task cmd \<noteq> [] then f (Cmd_Task cmd) w' else Some w') w =
   forEach (filter (\<lambda>t. t \<noteq> []) (map Cmd_Task cmds)) f w"
  by (induction cmds arbitrary: w) (auto split: option.splits)

lemma showDependencyTree_absent:
  "Get (mergedTaskfile w) taskName = None \<Longrightarrow>
   showDependencyTree (Suc fuel) taskName depth w =
     Some (printf (replicate (2 * depth) CHR '' '' @ taskName @ '' (not found)\<newline>'') w)"
  by (simp add: indent_eq del: indent_loop.simps)

lemma showDependencyTree_present:
  "Get (mergedTaskfile w) taskName = Some task \<Longrightarrow>
   showDependencyTree (Suc fuel) taskName depth w =
     forEach (children task) (\<lambda>t. showDependencyTree fuel t (depth + 1))
       (printf (treeLine depth taskName task) w)"
  by (simp add: indent_eq children_def treeLine_def forEach_append forEach_map
        forEach_cmds [where f = "\<lambda>t. showDependencyTree fuel t (depth + 1)"] printf_printf Let_def
      del: indent_loop.simps cong: option.case_cong)

lemma forEach_prints:
  assumes "\<And>x w w'. body x w = Some w' \<Longrightarrow> \<exists>s. w' = printf s w"
  shows "forEach xs body w = Some w' \<Longrightarrow> \<exists>s. w' = printf s w"
proof (induction xs arbitrary: w)
  case Nil
  then have "w' = printf [] w" by simp
  then show ?case by blast
next
  case (Cons x xs)
  from Cons.prems obtain w1 where b: "body x w = Some w1" and r: "forEach xs body w1 = Some w'"
    by (auto split: option.splits)
  from assms [OF b] obtain s where s: "w1 = printf s w" by blast
  from Cons.IH [OF r] obtain t where "w' = printf t w1" by blast
  with s have "w' = printf (s @ t) w" by (simp add: printf_printf)
  then show ?case by blast
qed

lemma showDependencyTree_prints:
  "showDependencyTree fuel taskName depth w = Some w' \<Longrightarrow> \<exists>s. w' = printf s w"
proof (induction fuel arbitrary: taskName depth w w')
  case 0
  then show ?case by simp
next
  case (Suc fuel)
  show ?case
  proof (cases "Get (mergedTaskfile w) taskName")
    case None
    with Suc.prems show ?thesis
      by (auto simp: showDependencyTree_absent simp del: showDependencyTree.simps)
  next
    case (Some task)
    from Suc.prems
    have "forEach (children task) (\<lambda>t. showDependencyTree fuel t (depth + 1))
            (printf (treeLine depth taskName task) w) = Some w'"
      by (simp only: showDependencyTree_present [OF Some])
    from forEach_prints [OF _ this] Suc.IH
    obtain s where "w' = printf s (printf (treeLine depth taskName task) w)"
      by blast
    then have "w' = printf (treeLine depth taskName task @ s) w"
      by (simp only: printf_printf)
    then show ?thesis by blast
  qed
qed

lemma showDependencyTree_frame:
  assumes "showDependencyTree fuel taskName depth w = Some w'"
  shows "mergedTaskfile w' = mergedTaskfile w" and "taskfileGraph w' = taskfileGraph w"
  using showDependencyTree_prints [OF assms] by auto

lemma forEach_mono:
  assumes "\<And>x w w'. f x w = Some w' \<Longrightarrow> g x w = Some w'"
  shows "forEach xs f w = Some w' \<Longrightarrow> forEach xs g w = Some w'"
  by (induction xs arbitrary: w) (auto split: option.splits dest: assms)

lemma showDependencyTree_Suc:
  "showDependencyTree fuel taskName depth w = Some w' \<Longrightarrow>
   showDependencyTree (Suc fuel) taskName depth w = Some w'"
proof (induction fuel arbitrary: taskName depth w w')
  case 0
  then show ?case by simp
next
  case (Suc fuel)
  show ?case
  proof (cases "Get (mergedTaskfile w) taskName")
    case None
    with Suc.prems show ?thesis
      by (simp add: showDependencyTree_absent del: showDependencyTree.simps)
  next
    case (Some task)
    from Suc.prems
    have "forEach (children task) (\<lambda>t. showDependencyTree fuel t (depth + 1))
            (printf (treeLine depth taskName task) w) = Some w'"
      by (simp only: showDependencyTree_present [OF Some])
    then have "forEach (children task) (\<lambda>t. showDependencyTree (Suc fuel) t (depth + 1))
            (printf (treeLine depth taskName task) w) = Some w'"
      by (rule forEach_mono [rotated]) (rule Suc.IH)
    then show ?thesis
      by (simp only: showDependencyTree_present [OF Some])
  qed
qed

lemma showDependencyTree_mono:
  assumes "fuel \<le> fuel'" and "showDependencyTree fuel taskName depth w = Some w'"
  shows "showDependencyTree fuel' taskName depth w = Some w'"
  using assms
  by (induction rule: dec_induct) (auto intro: showDependencyTree_Suc simp del: showDependencyTree.simps)

lemma refs_iff:
  "(a, b) \<in> refs tf \<longleftrightarrow> (\<exists>task. Get tf a = Some task \<and> b \<in> set (children task))"
proof
  assume "(a, b) \<in> refs tf"
  then show "\<exists>task. Get tf a = Some task \<and> b \<in> set (children task)"
    by (auto simp: refs_def split: option.splits)
next
  assume "\<exists>task. Get tf a = Some task \<and> b \<in> set (children task)"
  then obtain task where t: "Get tf a = Some task" and b: "b \<in> set (children task)"
    by blast
  from t have "a \<in> set (map fst (Tasks tf))"
    by (auto simp: Get_def dest: map_of_SomeD intro: rev_image_eqI)
  with t b show "(a, b) \<in> refs tf"
    by (force simp: refs_def)
qed

lemma finite_refs: "finite (refs tf)"
  by (auto simp: refs_def split: option.splits)

lemma reachable_iff: "x \<in> reachable tf start \<longleftrightarrow> (start, x) \<in> (refs tf)\<^sup>*"
  by (auto simp: reachable_def rtrancl_eq_or_trancl)

lemma forEach_total:
  assumes "\<And>x w. x \<in> set xs \<Longrightarrow> P w \<Longrightarrow> \<exists>w'. body x w = Some w' \<and> P w'"
    and "P w"
  shows "\<exists>w'. forEach xs body w = Some w' \<and> P w'"
  using assms
proof (induction xs arbitrary: w)
  case Nil
  then show ?case by simp
next
  case (Cons x xs)
  from Cons.prems(1) [of x w] Cons.prems(2)
  obtain w1 where b: "body x w = Some w1" and p: "P w1" by auto
  have "\<exists>w'. forEach xs body w1 = Some w' \<and> P w'"
    by (rule Cons.IH) (use Cons.prems(1) p in auto)
  with b show ?case by simp
qed

lemma uniform_fuel:
  assumes "\<forall>c \<in> set cs. \<exists>n. \<forall>d w. mergedTaskfile w = tf \<longrightarrow> showDependencyTree n c d w \<noteq> None"
  shows "\<exists>N. \<forall>c \<in> set cs. \<forall>d w. mergedTaskfile w = tf \<longrightarrow> showDependencyTree N c d w \<noteq> None"
  using assms
proof (induction cs)
  case Nil
  then show ?case by simp
next
  case (Cons c cs)
  then obtain n where n: "\<forall>d w. mergedTaskfile w = tf \<longrightarrow> showDependencyTree n c d w \<noteq> None"
    by auto
  from Cons obtain N
    where N: "\<forall>c \<in> set cs. \<forall>d w. mergedTaskfile w = tf \<longrightarrow> showDependencyTree N c d w \<noteq> None"
    by auto
  have "\<forall>c' \<in> set (c # cs). \<forall>d w. mergedTaskfile w = tf \<longrightarrow>
          showDependencyTree (max n N) c' d w \<noteq> None"
  proof (intro ballI allI impI)
    fix c' d and w :: world
    assume c': "c' \<in> set (c # cs)" and w: "mergedTaskfile w = tf"
    have "\<exists>k \<le> max n N. showDependencyTree k c' d w \<noteq> None"
    proof (cases "c' = c")
      case True
      with n w have "showDependencyTree n c' d w \<noteq> None" by blast
      then show ?thesis by (intro exI [of _ n]) simp
    next
      case False
      with c' have "c' \<in> set cs" by simp
      with N w have "showDependencyTree N c' d w \<noteq> None" by blast
      then show ?thesis by (intro exI [of _ N]) simp
    qed
    then obtain k w' where k: "k \<le> max n N" and r: "showDependencyTree k c' d w = Some w'"
      by auto
    from showDependencyTree_mono [OF k r] show "showDependencyTree (max n N) c' d w \<noteq> None"
      by simp
  qed
  then show ?case by blast
qed

lemma showDependencyTree_returns:
  assumes "acyclic_from tf start"
  shows "\<exists>n. \<forall>d w. mergedTaskfile w = tf \<longrightarrow> showDependencyTree n start d w \<noteq> None"
proof -
  define R' where "R' = {(b, a). (a, b) \<in> refs tf \<and> (start, a) \<in> (refs tf)\<^sup>*}"
  have "R' \<subseteq> (refs tf)\<inverse>" by (auto simp: R'_def)
  then have fin: "finite R'"
    by (rule finite_subset) (simp add: finite_refs)
  have tr: "(a, b) \<in> (refs tf)\<^sup>+ \<and> (start, a) \<in> (refs tf)\<^sup>*" if "(b, a) \<in> R'\<^sup>+" for a b
    using that
  proof (induction rule: trancl_induct)
    case (base y)
    then show ?case by (auto simp: R'_def)
  next
    case (step y z)
    from step.hyps(2) have "(z, y) \<in> refs tf" and "(start, z) \<in> (refs tf)\<^sup>*"
      by (auto simp: R'_def)
    with step.IH show ?case by (auto intro: trancl_into_trancl2)
  qed
  have "acyclic R'"
  proof (rule acyclicI, rule allI, rule notI)
    fix x assume "(x, x) \<in> R'\<^sup>+"
    from tr [OF this] have "(x, x) \<in> (refs tf)\<^sup>+" and "x \<in> reachable tf start"
      by (simp_all add: reachable_iff)
    with assms show False by (auto simp: acyclic_from_def)
  qed
  with fin have "wf R'" by (rule finite_acyclic_wf)
  then have "(start, a) \<in> (refs tf)\<^sup>* \<longrightarrow>
      (\<exists>n. \<forall>d w. mergedTaskfile w = tf \<longrightarrow> showDependencyTree n a d w \<noteq> None)" for a
  proof (induction a rule: wf_induct_rule)
    case (less a)
    show ?case
    proof
      assume reach: "(start, a) \<in> (refs tf)\<^sup>*"
      show "\<exists>n. \<forall>d w. mergedTaskfile w = tf \<longrightarrow> showDependencyTree n a d w \<noteq> None"
      proof (cases "Get tf a")
        case None
        then have "\<forall>d w. mergedTaskfile w = tf \<longrightarrow> showDependencyTree (Suc 0) a d w \<noteq> None"
          by (auto simp: showDependencyTree_absent simp del: showDependencyTree.simps)
        then show ?thesis by blast
      next
        case (Some task)
        have "\<forall>c \<in> set (children task).
                \<exists>n. \<forall>d w. mergedTaskfile w = tf \<longrightarrow> showDependencyTree n c d w \<noteq> None"
        proof
          fix c assume c: "c \<in> set (children task)"
          with Some have e: "(a, c) \<in> refs tf" by (auto simp: refs_iff)
          with reach have "(c, a) \<in> R'" and "(start, c) \<in> (refs tf)\<^sup>*"
            by (auto simp: R'_def)
          with less.IH [of c]
          show "\<exists>n. \<forall>d w. mergedTaskfile w = tf \<longrightarrow> showDependencyTree n c d w \<noteq> None"
            by blast
        qed
        from uniform_fuel [OF this] obtain N
          where N: "\<forall>c \<in> set (children task). \<forall>d w. mergedTaskfile w = tf \<longrightarrow>
                      showDependencyTree N c d w \<noteq> None"
          by blast
        have "\<forall>d w. mergedTaskfile w = tf \<longrightarrow> showDependencyTree (Suc N) a d w \<noteq> None"
        proof (intro allI impI)
          fix d and w :: world
          assume w: "mergedTaskfile w = tf"
          have "\<exists>w'. forEach (children task) (\<lambda>t. showDependencyTree N t (d + 1))
                       (printf (treeLine d a task) w) = Some w' \<and> mergedTaskfile w' = tf"
          proof (rule forEach_total)
            fix x and v :: world
            assume "x \<in> set (children task)" and v: "mergedTaskfile v = tf"
            with N obtain v' where r: "showDependencyTree N x (d + 1) v = Some v'"
              by fastforce
            from showDependencyTree_frame(1) [OF r] v r
            show "\<exists>w'. showDependencyTree N x (d + 1) v = Some w' \<and> mergedTaskfile w' = tf"
              by simp
          next
            from w show "mergedTaskfile (printf (treeLine d a task) w) = tf" by simp
          qed
          with Some w show "showDependencyTree (Suc N) a d w \<noteq> None"
            by (auto simp: showDependencyTree_present simp del: showDependencyTree.simps)
        qed
        then show ?thesis by blast
      qed
    qed
  qed
  then show ?thesis by blast
qed

lemma forEach_member:
  assumes "forEach xs body w = Some w'" and "x \<in> set xs"
    and "\<And>y v v'. body y v = Some v' \<Longrightarrow> mergedTaskfile v' = mergedTaskfile v"
  shows "\<exists>w1 w2. mergedTaskfile w1 = mergedTaskfile w \<and> body x w1 = Some w2"
  using assms(1,2)
proof (induction xs arbitrary: w)
  case Nil
  then show ?case by simp
next
  case (Cons y ys)
  from Cons.prems(1) obtain v where b: "body y w = Some v" and r: "forEach ys body v = Some w'"
    by (auto split: option.splits)
  show ?case
  proof (cases "x = y")
    case True
    with b show ?thesis by blast
  next
    case False
    with Cons.prems(2) have "x \<in> set ys" by simp
    from Cons.IH [OF r this] assms(3) [OF b] show ?thesis by auto
  qed
qed

lemma child_returns:
  assumes "showDependencyTree n a d w = Some w'" and "(a, c) \<in> refs (mergedTaskfile w)"
  shows "\<exists>m d1 w1 w2. m < n \<and> mergedTaskfile w1 = mergedTaskfile w \<and>
           showDependencyTree m c d1 w1 = Some w2"
proof (cases n)
  case 0
  with assms(1) show ?thesis by simp
next
  case (Suc k)
  from assms(2) obtain task
    where t: "Get (mergedTaskfile w) a = Some task" and c: "c \<in> set (children task)"
    by (auto simp: refs_iff)
  from assms(1) Suc
  have "forEach (children task) (\<lambda>t. showDependencyTree k t (d + 1))
          (printf (treeLine d a task) w) = Some w'"
    by (simp only: showDependencyTree_present [OF t])
  from forEach_member [OF this c] showDependencyTree_frame(1)
  obtain w1 w2 where "mergedTaskfile w1 = mergedTaskfile (printf (treeLine d a task) w)"
    and "showDependencyTree k c (d + 1) w1 = Some w2"
    by blast
  with Suc show ?thesis by auto
qed

lemma descendant_returns:
  assumes "(a, c) \<in> (refs tf)\<^sup>+"
    and "mergedTaskfile w = tf" and "showDependencyTree n a d w = Some w'"
  shows "\<exists>m d1 w1 w2. m < n \<and> mergedTaskfile w1 = tf \<and> showDependencyTree m c d1 w1 = Some w2"
  using assms(1)
proof (induction rule: trancl_induct)
  case (base y)
  with child_returns [OF assms(3), of y] assms(2) show ?case by auto
next
  case (step y z)
  from step.IH obtain m d1 w1 w2
    where m: "m < n" and w1: "mergedTaskfile w1 = tf"
      and r: "showDependencyTree m y d1 w1 = Some w2"
    by blast
  from child_returns [OF r, of z] step.hyps(2) w1
  obtain m' d2 v1 v2 where m': "m' < m" and v1: "mergedTaskfile v1 = tf"
    and r': "showDependencyTree m' z d2 v1 = Some v2"
    by auto
  from m m' have "m' < n" by simp
  with v1 r' show ?case by blast
qed

lemma cycle_diverges:
  assumes "(a, a) \<in> (refs tf)\<^sup>+"
  shows "mergedTaskfile w = tf \<Longrightarrow> showDependencyTree n a d w = None"
proof (induction n arbitrary: d w rule: less_induct)
  case (less n)
  show ?case
  proof (rule ccontr)
    assume "showDependencyTree n a d w \<noteq> None"
    then obtain w' where "showDependencyTree n a d w = Some w'" by auto
    from descendant_returns [OF assms less.prems this]
    obtain m d1 w1 w2 where "m < n" and "mergedTaskfile w1 = tf"
      and "showDependencyTree m a d1 w1 = Some w2"
      by blast
    with less.IH [of m w1 d1] show False by simp
  qed
qed

lemma reachable_cycle_diverges:
  assumes "x \<in> reachable tf start" and "(x, x) \<in> (refs tf)\<^sup>+" and "mergedTaskfile w = tf"
  shows "showDependencyTree n start d w = None"
proof (cases "x = start")
  case True
  with cycle_diverges [OF assms(2) assms(3)] show ?thesis by simp
next
  case False
  with assms(1) have p: "(start, x) \<in> (refs tf)\<^sup>+"
    by (auto simp: reachable_def)
  show ?thesis
  proof (rule ccontr)
    assume "showDependencyTree n start d w \<noteq> None"
    then obtain w' where "showDependencyTree n start d w = Some w'" by auto
    from descendant_returns [OF p assms(3) this]
    obtain m d1 w1 w2 where "mergedTaskfile w1 = tf" and "showDependencyTree m x d1 w1 = Some w2"
      by blast
    with cycle_diverges [OF assms(2), of w1 m d1] show False by simp
  qed
qed

lemma fold_printf:
  assumes "\<And>x w. f x w = printf (g x) w"
  shows "fold f xs w = printf (concat (map g xs)) w"
  by (induction xs arbitrary: w) (simp_all add: assms printf_printf)

lemma printInclude_eq: "printInclude x w = printf (includeLine x) w"
  by (cases x) (simp add: printInclude_def includeLine_def)

lemma listCmd_eq: "listCmd cmd w = printf (cmdLines cmd) w"
  by (simp add: listCmd_def cmdLines_def printf_printf Let_def)

lemma listTask_eq: "listTask x w = printf (taskLines x) w"
proof (cases x)
  case (Pair taskName task)
  have deps: "fold listDep (Deps task) v =
      printf (concat (map (\<lambda>dep. ''    - '' @ Dep_Task dep @ ''\<newline>'') (Deps task))) v" for v
    by (rule fold_printf) (simp add: listDep_def)
  have cmds: "fold listCmd (Cmds task) v = printf (concat (map cmdLines (Cmds task))) v" for v
    by (rule fold_printf) (rule listCmd_eq)
  show ?thesis
    unfolding Pair listTask_def taskLines_def
    by (simp add: deps cmds printf_printf Let_def)
qed

lemma flatTaskLister_eq:
  "flatTaskLister w = printf (concat (map taskLines (Tasks (mergedTaskfile w)))) w"
  unfolding flatTaskLister_def by (rule fold_printf) (rule listTask_eq)

lemma inclusion_loop_eq:
  assumes "map (Vertex (taskfileGraph w)) hashes = map Some vs"
  shows "inclusion_loop i hashes w =
           printf (concat (map (\<lambda>(k, v). vertexLines (k + 1) v) (enumerate i vs))) w"
  using assms
proof (induction hashes arbitrary: i vs w)
  case Nil
  then show ?case by simp
next
  case (Cons hash hashes)
  from Cons.prems obtain v vs' where vs: "vs = v # vs'"
    and v: "Vertex (taskfileGraph w) hash = Some v"
    and rest: "map (Vertex (taskfileGraph w)) hashes = map Some vs'"
    by (cases vs) auto
  have incl: "fold printInclude (Includes (Vertex_Taskfile v)) u =
      printf (concat (map includeLine (Includes (Vertex_Taskfile v)))) u" for u
    by (rule fold_printf) (rule printInclude_eq)
  have step: "inclusion_loop i (hash # hashes) w =
      inclusion_loop (Suc i) hashes (printf (vertexLines (i + 1) v) w)"
    by (simp add: v incl vertexLines_def printf_printf Let_def)
  have "inclusion_loop (Suc i) hashes (printf (vertexLines (i + 1) v) w) =
      printf (concat (map (\<lambda>(k, v). vertexLines (k + 1) v) (enumerate (Suc i) vs')))
        (printf (vertexLines (i + 1) v) w)"
    by (rule Cons.IH) (simp add: rest)
  with step show ?case
    by (simp add: vs printf_printf)
qed

lemma inclusion_loop_prints: "\<exists>s. inclusion_loop i hashes w = printf s w"
proof (induction hashes arbitrary: i w)
  case Nil
  have "inclusion_loop i [] w = printf [] w" by simp
  then show ?case by blast
next
  case (Cons hash hashes)
  show ?case
  proof (cases "Vertex (taskfileGraph w) hash")
    case None
    with Cons.IH [of "i + 1" w] show ?thesis by simp
  next
    case (Some v)
    have incl: "fold printInclude (Includes (Vertex_Taskfile v)) u =
        printf (concat (map includeLine (Includes (Vertex_Taskfile v)))) u" for u
      by (rule fold_printf) (rule printInclude_eq)
    have step: "inclusion_loop i (hash # hashes) w =
        inclusion_loop (Suc i) hashes (printf (vertexLines (i + 1) v) w)"
      by (simp add: Some incl vertexLines_def printf_printf Let_def)
    from Cons.IH [of "Suc i" "printf (vertexLines (i + 1) v) w"]
    obtain s where "inclusion_loop (Suc i) hashes (printf (vertexLines (i + 1) v) w) =
        printf s (printf (vertexLines (i + 1) v) w)"
      by blast
    with step have "inclusion_loop i (hash # hashes) w = printf (vertexLines (i + 1) v @ s) w"
      by (simp only: printf_printf)
    then show ?thesis by blast
  qed
qed

lemma treeFromStart_absent:
  assumes "Get (mergedTaskfile w) startTask = None"
  shows "treeFromStart fuel startTask w =
     Some (printf (''=== Complete Dependency Tree from '' @ [CHR 0x27] @ startTask @ [CHR 0x27]
                     @ '' task ===\<newline>''
                   @ ''Task '' @ [CHR 0x27] @ startTask @ [CHR 0x27] @ '' not found\<newline>''
                   @ ''Available tasks:\<newline>''
                   @ concat (map (\<lambda>(taskName, task). ''  - '' @ taskName @ ''\<newline>'')
                               (Tasks (mergedTaskfile w)))) w)"
proof -
  have "fold (\<lambda>(taskName, task). printf (''  - '' @ taskName @ ''\<newline>'')) xs v =
      printf (concat (map (\<lambda>(taskName, task). ''  - '' @ taskName @ ''\<newline>'') xs)) v"
    for xs :: "(string \<times> Task) list" and v
    by (rule fold_printf) (simp add: split_def)
  with assms show ?thesis
    by (simp add: treeFromStart_def printf_printf Let_def)
qed

lemma treeFromStart_prints:
  assumes "treeFromStart fuel startTask w = Some w'"
  shows "\<exists>s. w' = printf s w"
proof (cases "Get (mergedTaskfile w) startTask")
  case None
  from assms show ?thesis
    unfolding treeFromStart_absent [OF None] by blast
next
  case (Some task)
  let ?h = "''=== Complete Dependency Tree from '' @ [CHR 0x27] @ startTask @ [CHR 0x27]
              @ '' task ===\<newline>''"
  from assms Some have "showDependencyTree fuel startTask 0 (printf ?h w) = Some w'"
    by (simp add: treeFromStart_def Let_def)
  from showDependencyTree_prints [OF this] obtain s where "w' = printf s (printf ?h w)"
    by blast
  then have "w' = printf (?h @ s) w" by (simp only: printf_printf)
  then show ?thesis by blast
qed

lemma buildTaskDependencyGraph_snd: "snd (buildTaskDependencyGraph w) = w"
  by (simp add: buildTaskDependencyGraph_def)

lemma forEach_frame:
  assumes "forEach xs (\<lambda>t. showDependencyTree fuel t depth) w = Some w'"
  shows "mergedTaskfile w' = mergedTaskfile w"
  using forEach_prints [OF _ assms] showDependencyTree_prints by fastforce

text \<open>
  C1. For a task that is in the document, a call at depth \<open>d\<close> prints one line made of
  \<open>2 * d\<close> spaces, the task name and, exactly when the description is not empty,
  \<open>" - "\<close> followed by the description; it then calls itself at depth \<open>d + 1\<close> on the
  explicit dependencies in their order and after them on the task calls among the
  commands in their order.
\<close>

theorem showDependencyTree_line_then_children:
  assumes "Get (mergedTaskfile w) taskName = Some task"
  shows "showDependencyTree (Suc fuel) taskName depth w =
     forEach (map Dep_Task (Deps task) @ filter (\<lambda>t. t \<noteq> []) (map Cmd_Task (Cmds task)))
       (\<lambda>t. showDependencyTree fuel t (depth + 1))
       (printf (replicate (2 * depth) CHR '' '' @ taskName
                  @ (if Desc task = [] then [] else '' - '' @ Desc task) @ ''\<newline>'') w)"
  using showDependencyTree_present [OF assms, of fuel depth]
  by (simp only: children_def treeLine_def)

theorem showDependencyTree_line_then_children_witness:
  "Get (mergedTaskfile (start_world example_graph example_doc)) ''default''
     = Some \<lparr>Desc = [], Deps = [], Cmds = [taskCall ''test'']\<rparr>
   \<and> showDependencyTree (Suc (Suc (Suc 0))) ''default'' 0 (start_world example_graph example_doc)
     = forEach [''test''] (\<lambda>t. showDependencyTree (Suc (Suc 0)) t 1)
         (printf ''default\<newline>'' (start_world example_graph example_doc))
   \<and> showDependencyTree (Suc (Suc (Suc 0))) ''default'' 0 (start_world example_graph example_doc)
     = Some (printf ''default\<newline>  test\<newline>    build\<newline>''
               (start_world example_graph example_doc))"
proof -
  have h: "Get (mergedTaskfile (start_world example_graph example_doc)) ''default''
     = Some \<lparr>Desc = [], Deps = [], Cmds = [taskCall ''test'']\<rparr>"
    by (simp add: Get_def start_world_def example_doc_def)
  have e: "showDependencyTree (Suc (Suc (Suc 0))) ''default'' 0
             (start_world example_graph example_doc)
     = Some (printf ''default\<newline>  test\<newline>    build\<newline>''
               (start_world example_graph example_doc))"
    by code_simp
  from showDependencyTree_line_then_children [OF h, of "Suc (Suc 0)" 0] h e
  show ?thesis by (simp add: taskCall_def del: showDependencyTree.simps)
qed

text \<open>
  C2. Task \<open>A\<close> has the single explicit dependency \<open>B\<close>, \<open>B\<close> the single explicit
  dependency \<open>C\<close>, \<open>C\<close> none; none of them calls a task from its commands and none has a
  description. Then a call on \<open>A\<close> at depth 0 returns as soon as three nested calls are
  allowed, and what it prints is the three lines \<open>A\<close>, \<open>B\<close> after two spaces and \<open>C\<close>
  after four spaces.
\<close>

theorem showDependencyTree_chain:
  assumes "Get (mergedTaskfile w) A = Some ta"
    and "map Dep_Task (Deps ta) = [B]"
    and "filter (\<lambda>t. t \<noteq> []) (map Cmd_Task (Cmds ta)) = []"
    and "Desc ta = []"
    and "Get (mergedTaskfile w) B = Some tb"
    and "map Dep_Task (Deps tb) = [C]"
    and "filter (\<lambda>t. t \<noteq> []) (map Cmd_Task (Cmds tb)) = []"
    and "Desc tb = []"
    and "Get (mergedTaskfile w) C = Some tc"
    and "map Dep_Task (Deps tc) = []"
    and "filter (\<lambda>t. t \<noteq> []) (map Cmd_Task (Cmds tc)) = []"
    and "Desc tc = []"
  shows "showDependencyTree (Suc (Suc (Suc fuel))) A 0 w =
     Some (printf (A @ ''\<newline>'' @ ''  '' @ B @ ''\<newline>'' @ ''    '' @ C @ ''\<newline>'') w)"
proof -
  let ?w1 = "printf (A @ ''\<newline>'') w"
  let ?w2 = "printf (''  '' @ B @ ''\<newline>'') ?w1"
  let ?w3 = "printf (''    '' @ C @ ''\<newline>'') ?w2"
  have ca: "children ta = [B]" and cb: "children tb = [C]" and cc: "children tc = []"
    using assms by (simp_all add: children_def)
  have la: "treeLine 0 A ta = A @ ''\<newline>''"
    and lb: "treeLine (0 + 1) B tb = ''  '' @ B @ ''\<newline>''"
    and lc: "treeLine (0 + 1 + 1) C tc = ''    '' @ C @ ''\<newline>''"
    using assms by (simp_all add: treeLine_def numeral_eq_Suc)
  have "Get (mergedTaskfile ?w2) C = Some tc"
    using assms(9) by simp
  from showDependencyTree_present [OF this, of fuel "0 + 1 + 1"]
  have c: "showDependencyTree (Suc fuel) C (0 + 1 + 1) ?w2 = Some ?w3"
    by (simp only: cc lc forEach.simps)
  have "Get (mergedTaskfile ?w1) B = Some tb"
    using assms(5) by simp
  from showDependencyTree_present [OF this, of "Suc fuel" "0 + 1"]
  have b: "showDependencyTree (Suc (Suc fuel)) B (0 + 1) ?w1 = Some ?w3"
    by (simp only: cb lb forEach.simps c option.case)
  from showDependencyTree_present [OF assms(1), of "Suc (Suc fuel)" 0]
  have "showDependencyTree (Suc (Suc (Suc fuel))) A 0 w = Some ?w3"
    by (simp only: ca la forEach.simps b option.case)
  then show ?thesis
    by (simp only: printf_printf append_assoc)
qed

theorem showDependencyTree_chain_witness:
  "Get (mergedTaskfile (start_world example_graph chain_doc)) ''a''
     = Some \<lparr>Desc = [], Deps = [\<lparr>Dep_Task = ''b''\<rparr>], Cmds = [literalCmd ''echo a'']\<rparr>
   \<and> Get (mergedTaskfile (start_world example_graph chain_doc)) ''b''
     = Some \<lparr>Desc = [], Deps = [\<lparr>Dep_Task = ''c''\<rparr>], Cmds = []\<rparr>
   \<and> Get (mergedTaskfile (start_world example_graph chain_doc)) ''c''
     = Some \<lparr>Desc = [], Deps = [], Cmds = []\<rparr>
   \<and> showDependencyTree (Suc (Suc (Suc 0))) ''a'' 0 (start_world example_graph chain_doc)
     = Some (printf ''a\<newline>  b\<newline>    c\<newline>'' (start_world example_graph chain_doc))"
proof -
  have a: "Get (mergedTaskfile (start_world example_graph chain_doc)) ''a''
     = Some \<lparr>Desc = [], Deps = [\<lparr>Dep_Task = ''b''\<rparr>], Cmds = [literalCmd ''echo a'']\<rparr>"
    and b: "Get (mergedTaskfile (start_world example_graph chain_doc)) ''b''
     = Some \<lparr>Desc = [], Deps = [\<lparr>Dep_Task = ''c''\<rparr>], Cmds = []\<rparr>"
    and c: "Get (mergedTaskfile (start_world example_graph chain_doc)) ''c''
     = Some \<lparr>Desc = [], Deps = [], Cmds = []\<rparr>"
    by (simp_all add: Get_def start_world_def chain_doc_def)
  from showDependencyTree_chain [where fuel = 0, OF a _ _ _ b _ _ _ c] a b c
  show ?thesis by (simp add: literalCmd_def del: showDependencyTree.simps)
qed

text \<open>
  C3. For a name that is not in the document, a call at depth \<open>d\<close> prints the one line
  made of \<open>2 * d\<close> spaces, the name and \<open>" (not found)"\<close>, and returns without a nested
  call: one allowed call is enough. The caller goes on: when the name stands among the
  children of a task that is in the document, the children before it and after it are
  rendered as they would be without it.
\<close>

theorem showDependencyTree_not_found:
  assumes "Get (mergedTaskfile w) taskName = None"
  shows "showDependencyTree (Suc fuel) taskName depth w =
           Some (printf (replicate (2 * depth) CHR '' '' @ taskName @ '' (not found)\<newline>'') w)
    \<and> (\<forall>parent task before after.
          Get (mergedTaskfile w) parent = Some task \<and>
          map Dep_Task (Deps task) @ filter (\<lambda>t. t \<noteq> []) (map Cmd_Task (Cmds task))
            = before @ taskName # after \<longrightarrow>
          showDependencyTree (Suc (Suc fuel)) parent depth w =
            (case forEach before (\<lambda>t. showDependencyTree (Suc fuel) t (depth + 1))
                    (printf (treeLine depth parent task) w) of
               None \<Rightarrow> None
             | Some w1 \<Rightarrow>
                 forEach after (\<lambda>t. showDependencyTree (Suc fuel) t (depth + 1))
                   (printf (replicate (2 * (depth + 1)) CHR '' '' @ taskName
                              @ '' (not found)\<newline>'') w1)))"
proof (intro conjI allI impI)
  show "showDependencyTree (Suc fuel) taskName depth w =
          Some (printf (replicate (2 * depth) CHR '' '' @ taskName @ '' (not found)\<newline>'') w)"
    by (rule showDependencyTree_absent [OF assms])
next
  fix parent task before after
  assume p: "Get (mergedTaskfile w) parent = Some task \<and>
          map Dep_Task (Deps task) @ filter (\<lambda>t. t \<noteq> []) (map Cmd_Task (Cmds task))
            = before @ taskName # after"
  then have c: "children task = before @ taskName # after"
    by (simp add: children_def)
  let ?body = "\<lambda>t. showDependencyTree (Suc fuel) t (depth + 1)"
  let ?w0 = "printf (treeLine depth parent task) w"
  have unfold: "showDependencyTree (Suc (Suc fuel)) parent depth w =
      (case forEach before ?body ?w0 of
         None \<Rightarrow> None
       | Some w1 \<Rightarrow> forEach (taskName # after) ?body w1)"
    using p by (simp only: showDependencyTree_present c forEach_append)
  show "showDependencyTree (Suc (Suc fuel)) parent depth w =
      (case forEach before ?body ?w0 of
         None \<Rightarrow> None
       | Some w1 \<Rightarrow>
           forEach after ?body
             (printf (replicate (2 * (depth + 1)) CHR '' '' @ taskName
                        @ '' (not found)\<newline>'') w1))"
  proof (cases "forEach before ?body ?w0")
    case None
    with unfold show ?thesis by (simp only: option.case)
  next
    case (Some w1)
    from forEach_frame [OF Some] assms have "Get (mergedTaskfile w1) taskName = None"
      by simp
    from showDependencyTree_absent [OF this, of fuel "depth + 1"] unfold Some
    show ?thesis
      by (simp del: showDependencyTree.simps)
  qed
qed

theorem showDependencyTree_not_found_witness:
  "Get (mergedTaskfile (start_world example_graph dangling_doc)) ''missing'' = None
   \<and> showDependencyTree (Suc 0) ''missing'' 2 (start_world example_graph dangling_doc)
     = Some (printf ''    missing (not found)\<newline>'' (start_world example_graph dangling_doc))
   \<and> Get (mergedTaskfile (start_world example_graph dangling_doc)) ''default''
     = Some \<lparr>Desc = [], Deps = [\<lparr>Dep_Task = ''missing''\<rparr>], Cmds = [taskCall ''build'']\<rparr>
   \<and> showDependencyTree (Suc (Suc 0)) ''default'' 0 (start_world example_graph dangling_doc)
     = forEach [''build''] (\<lambda>t. showDependencyTree (Suc 0) t 1)
         (printf ''  missing (not found)\<newline>''
            (printf ''default\<newline>'' (start_world example_graph dangling_doc)))
   \<and> showDependencyTree (Suc (Suc 0)) ''default'' 0 (start_world example_graph dangling_doc)
     = Some (printf ''default\<newline>  missing (not found)\<newline>  build - compile\<newline>''
               (start_world example_graph dangling_doc))"
proof -
  have h: "Get (mergedTaskfile (start_world example_graph dangling_doc)) ''missing'' = None"
    by (simp add: Get_def start_world_def dangling_doc_def)
  have p: "Get (mergedTaskfile (start_world example_graph dangling_doc)) ''default''
     = Some \<lparr>Desc = [], Deps = [\<lparr>Dep_Task = ''missing''\<rparr>], Cmds = [taskCall ''build'']\<rparr>"
    by (simp add: Get_def start_world_def dangling_doc_def)
  have c: "map Dep_Task (Deps \<lparr>Desc = [], Deps = [\<lparr>Dep_Task = ''missing''\<rparr>],
                               Cmds = [taskCall ''build'']\<rparr>)
             @ filter (\<lambda>t. t \<noteq> [])
                 (map Cmd_Task (Cmds \<lparr>Desc = [], Deps = [\<lparr>Dep_Task = ''missing''\<rparr>],
                                       Cmds = [taskCall ''build'']\<rparr>))
           = [] @ ''missing'' # [''build'']"
    by (simp add: taskCall_def)
  have e: "showDependencyTree (Suc (Suc 0)) ''default'' 0 (start_world example_graph dangling_doc)
     = Some (printf ''default\<newline>  missing (not found)\<newline>  build - compile\<newline>''
               (start_world example_graph dangling_doc))"
    by code_simp
  note t = showDependencyTree_not_found [OF h]
  from t [of 0 2, THEN conjunct1]
  have first: "showDependencyTree (Suc 0) ''missing'' 2 (start_world example_graph dangling_doc)
     = Some (printf ''    missing (not found)\<newline>'' (start_world example_graph dangling_doc))"
    by (simp add: numeral_eq_Suc del: showDependencyTree.simps)
  from t [of 0 0, THEN conjunct2, rule_format, OF conjI, OF p c]
  have second: "showDependencyTree (Suc (Suc 0)) ''default'' 0 (start_world example_graph dangling_doc)
     = forEach [''build''] (\<lambda>t. showDependencyTree (Suc 0) t 1)
         (printf ''  missing (not found)\<newline>''
            (printf ''default\<newline>'' (start_world example_graph dangling_doc)))"
    by (simp add: treeLine_def numeral_eq_Suc del: showDependencyTree.simps)
  from h first p second e show ?thesis
    by (intro conjI)
qed

lemma main_sorted:
  assumes "TopologicalSort (taskfileGraph w) = Inr hashes"
  shows "main TopologicalSort fuel startTask w =
     map_option (Pair Returned)
       (treeFromStart fuel startTask
          (flatTaskLister
             (printf (''\<newline>'' @ ''=== Task Dependencies ===\<newline>'')
                (inclusion_loop 0 hashes
                   (printf (''=== Taskfile Graph Analysis ===\<newline>''
                            @ ''Location: '' @ Location (mergedTaskfile w) @ ''\<newline>''
                            @ ''Version: '' @ Version (mergedTaskfile w) @ ''\<newline>''
                            @ ''\<newline>''
                            @ ''=== Taskfile Inclusion Graph ===\<newline>'') w)))))"
  using assms
  by (simp add: main_def Let_def printf_printf buildTaskDependencyGraph_snd)

lemma main_failed:
  assumes "TopologicalSort (taskfileGraph w) = Inl err"
  shows "main TopologicalSort fuel startTask w =
     Some (Panicked (''Failed to sort graph: '' @ err),
           printf (''=== Taskfile Graph Analysis ===\<newline>''
                   @ ''Location: '' @ Location (mergedTaskfile w) @ ''\<newline>''
                   @ ''Version: '' @ Version (mergedTaskfile w) @ ''\<newline>''
                   @ ''\<newline>''
                   @ ''=== Taskfile Inclusion Graph ===\<newline>'') w)"
  using assms
  by (simp add: main_def Let_def printf_printf)

lemma inclusion_loop_frame [simp]:
  "mergedTaskfile (inclusion_loop i hashes w) = mergedTaskfile w"
  "taskfileGraph (inclusion_loop i hashes w) = taskfileGraph w"
proof -
  obtain s where "inclusion_loop i hashes w = printf s w"
    using inclusion_loop_prints by blast
  then show "mergedTaskfile (inclusion_loop i hashes w) = mergedTaskfile w"
    and "taskfileGraph (inclusion_loop i hashes w) = taskfileGraph w"
    by simp_all
qed

lemma flatTaskLister_frame [simp]:
  "mergedTaskfile (flatTaskLister w) = mergedTaskfile w"
  "taskfileGraph (flatTaskLister w) = taskfileGraph w"
  by (simp_all add: flatTaskLister_eq)

lemma main_prints:
  assumes "main TopologicalSort fuel startTask w = Some (result, w')"
  shows "\<exists>s. w' = printf s w"
proof (cases "TopologicalSort (taskfileGraph w)")
  case (Inl err)
  from assms show ?thesis
    unfolding main_failed [where TopologicalSort = TopologicalSort and w = w, OF Inl] by blast
next
  case (Inr hashes)
  define P where "P = ''=== Taskfile Graph Analysis ===\<newline>''
            @ ''Location: '' @ Location (mergedTaskfile w) @ ''\<newline>''
            @ ''Version: '' @ Version (mergedTaskfile w) @ ''\<newline>''
            @ ''\<newline>''
            @ ''=== Taskfile Inclusion Graph ===\<newline>''"
  define D where "D = ''\<newline>'' @ ''=== Task Dependencies ===\<newline>''"
  define w0 where "w0 = printf P w"
  define w1 where "w1 = inclusion_loop 0 hashes w0"
  define w2 where "w2 = printf D w1"
  define w3 where "w3 = flatTaskLister w2"
  obtain s1 where s1: "w1 = printf s1 w0"
    unfolding w1_def using inclusion_loop_prints by blast
  have "w3 = printf (concat (map taskLines (Tasks (mergedTaskfile w2)))) w2"
    unfolding w3_def by (rule flatTaskLister_eq)
  then have "w3 = printf (((P @ s1) @ D) @ concat (map taskLines (Tasks (mergedTaskfile w2)))) w"
    by (simp only: w2_def s1 w0_def printf_printf)
  then obtain s3 where s3: "w3 = printf s3 w" by blast
  from assms have "treeFromStart fuel startTask w3 = Some w'"
    unfolding main_sorted [where TopologicalSort = TopologicalSort and w = w, OF Inr]
      w3_def w2_def w1_def w0_def P_def D_def by auto
  from treeFromStart_prints [OF this] obtain s where "w' = printf s w3"
    by blast
  then have "w' = printf (s3 @ s) w"
    by (simp only: s3 printf_printf)
  then show ?thesis by blast
qed

text \<open>
  C4. When the start name is not in the document (and the listing of the inclusion graph
  went through), \<open>main\<close> returns whatever the number of calls allowed to
  \<open>showDependencyTree\<close>, also none: the tree is not rendered. After the heading of the
  last block it prints the not-found message for the name, the line
  \<open>Available tasks:\<close> and one line \<open>"  - " name\<close> for every task of the document in the
  order of the document.
\<close>

theorem main_start_not_found:
  assumes "TopologicalSort (taskfileGraph w) = Inr hashes"
    and "Get (mergedTaskfile w) startTask = None"
  shows "main TopologicalSort fuel startTask w =
     Some (Returned,
       printf (''=== Complete Dependency Tree from '' @ [CHR 0x27] @ startTask @ [CHR 0x27]
                 @ '' task ===\<newline>''
               @ ''Task '' @ [CHR 0x27] @ startTask @ [CHR 0x27] @ '' not found\<newline>''
               @ ''Available tasks:\<newline>''
               @ concat (map (\<lambda>(taskName, task). ''  - '' @ taskName @ ''\<newline>'')
                           (Tasks (mergedTaskfile w))))
         (flatTaskLister
            (printf (''\<newline>'' @ ''=== Task Dependencies ===\<newline>'')
               (inclusion_loop 0 hashes
                  (printf (''=== Taskfile Graph Analysis ===\<newline>''
                           @ ''Location: '' @ Location (mergedTaskfile w) @ ''\<newline>''
                           @ ''Version: '' @ Version (mergedTaskfile w) @ ''\<newline>''
                           @ ''\<newline>''
                           @ ''=== Taskfile Inclusion Graph ===\<newline>'') w)))))"
proof -
  define w3 where "w3 = flatTaskLister
              (printf (''\<newline>'' @ ''=== Task Dependencies ===\<newline>'')
                 (inclusion_loop 0 hashes
                    (printf (''=== Taskfile Graph Analysis ===\<newline>''
                             @ ''Location: '' @ Location (mergedTaskfile w) @ ''\<newline>''
                             @ ''Version: '' @ Version (mergedTaskfile w) @ ''\<newline>''
                             @ ''\<newline>''
                             @ ''=== Taskfile Inclusion Graph ===\<newline>'') w)))"
  have same: "mergedTaskfile w3 = mergedTaskfile w"
    unfolding w3_def by simp
  with assms(2) have "Get (mergedTaskfile w3) startTask = None"
    by simp
  from treeFromStart_absent [OF this, of fuel] show ?thesis
    unfolding main_sorted [where TopologicalSort = TopologicalSort and w = w, OF assms(1)]
      w3_def [symmetric] same
    by simp
qed

theorem main_start_not_found_witness:
  "Get (mergedTaskfile (start_world example_graph only_default_doc)) ''nonexistent'' = None
   \<and> main (\<lambda>g. Inr [''root'', ''lib'']) 0 ''nonexistent''
         (start_world example_graph only_default_doc)
     = Some (Returned,
         printf (''=== Complete Dependency Tree from '' @ [CHR 0x27] @ ''nonexistent''
                   @ [CHR 0x27] @ '' task ===\<newline>''
                 @ ''Task '' @ [CHR 0x27] @ ''nonexistent'' @ [CHR 0x27] @ '' not found\<newline>''
                 @ ''Available tasks:\<newline>''
                 @ ''  - default\<newline>'')
           (flatTaskLister
              (printf (''\<newline>'' @ ''=== Task Dependencies ===\<newline>'')
                 (inclusion_loop 0 [''root'', ''lib'']
                    (printf (''=== Taskfile Graph Analysis ===\<newline>''
                             @ ''Location: Taskfile.yaml\<newline>''
                             @ ''Version: 3\<newline>''
                             @ ''\<newline>''
                             @ ''=== Taskfile Inclusion Graph ===\<newline>'')
                       (start_world example_graph only_default_doc))))))"
proof -
  have h: "Get (mergedTaskfile (start_world example_graph only_default_doc)) ''nonexistent'' = None"
    by (simp add: Get_def start_world_def only_default_doc_def)
  have t: "Tasks (mergedTaskfile (start_world example_graph only_default_doc))
      = [(''default'', \<lparr>Desc = [], Deps = [], Cmds = [literalCmd ''echo hi'']\<rparr>)]"
    and l: "Location (mergedTaskfile (start_world example_graph only_default_doc)) = ''Taskfile.yaml''"
    and v: "Version (mergedTaskfile (start_world example_graph only_default_doc)) = ''3''"
    by (simp_all add: start_world_def only_default_doc_def)
  from main_start_not_found [of "\<lambda>g. Inr [''root'', ''lib'']" _ "[''root'', ''lib'']", OF refl h, of 0]
  show ?thesis
    by (simp add: h t l v)
qed

lemma precedes_split:
  assumes "precedes a b hashes"
  shows "\<exists>xs ys zs. hashes = xs @ a # ys @ b # zs"
proof -
  let ?P = "\<lambda>h. h \<noteq> a"
  from assms have b: "b \<in> set (dropWhile ?P hashes)" and ab: "a \<noteq> b"
    by (simp_all add: precedes_def)
  have ne: "dropWhile ?P hashes \<noteq> []"
  proof
    assume e: "dropWhile ?P hashes = []"
    from b show False unfolding e by simp
  qed
  then obtain x rest where d: "dropWhile ?P hashes = x # rest"
    by (cases "dropWhile ?P hashes") auto
  from hd_dropWhile [OF ne] d have x: "x = a" by simp
  from b d x ab have "b \<in> set rest" by auto
  then obtain ys zs where "rest = ys @ b # zs"
    by (auto dest: split_list)
  with d x have "hashes = takeWhile ?P hashes @ a # ys @ b # zs"
    using takeWhile_dropWhile_id [of ?P hashes] by simp
  then show ?thesis by blast
qed

text \<open>
  C5. When the inclusion graph has no cycle and the sort keeps to its contract, the sort
  returns a list of hashes in which every vertex of the graph stands exactly once and
  every including document stands before the documents it includes. The loop finds a
  vertex for every hash and prints, for each in this order, its position counted from
  one and its \<open>URI\<close>, then, when the vertex has includes, the line \<open>Includes:\<close> and one
  line with namespace and locator for each of them. So in the text that is printed the
  lines of a document that includes another stand before the lines of the document it
  includes, with the smaller position: a document is listed before the documents it
  depends on, not after them.
\<close>

theorem inclusion_loop_topological:
  assumes "acyclic (set (edges (taskfileGraph w)))"
    and "TopologicalSort_spec (taskfileGraph w) r"
  shows "\<exists>hashes vs.
     r = Inr hashes \<and>
     distinct hashes \<and>
     set hashes = set (map fst (vertices (taskfileGraph w))) \<and>
     (\<forall>(a, b) \<in> set (edges (taskfileGraph w)). precedes a b hashes) \<and>
     map (Vertex (taskfileGraph w)) hashes = map Some vs \<and>
     inclusion_loop 0 hashes w =
       printf (concat (map (\<lambda>(i, vertex). vertexLines (i + 1) vertex) (enumerate 0 vs))) w \<and>
     (\<forall>(a, b) \<in> set (edges (taskfileGraph w)).
        \<exists>i j va vb before between after.
          i < j \<and>
          Vertex (taskfileGraph w) a = Some va \<and>
          Vertex (taskfileGraph w) b = Some vb \<and>
          concat (map (\<lambda>(i, vertex). vertexLines (i + 1) vertex) (enumerate 0 vs)) =
            before @ vertexLines (i + 1) va @ between @ vertexLines (j + 1) vb @ after)"
proof -
  let ?g = "taskfileGraph w"
  let ?V = "\<lambda>h. the (Vertex ?g h)"
  let ?F = "\<lambda>(i, vertex). vertexLines (i + 1) vertex"
  from assms obtain hashes where r: "r = Inr hashes"
    and t: "topological_order ?g hashes"
    by (cases r) (auto simp: TopologicalSort_spec_def)
  define vs where "vs = map ?V hashes"
  have found: "Vertex ?g h = Some (?V h)" if "h \<in> set hashes" for h
  proof -
    from that t have "h \<in> fst ` set (vertices ?g)"
      by (simp add: topological_order_def)
    then have "map_of (vertices ?g) h \<noteq> None"
      by (simp add: map_of_eq_None_iff)
    then show ?thesis by (auto simp: Vertex_def)
  qed
  then have m: "map (Vertex ?g) hashes = map Some vs"
    by (simp add: vs_def)
  from t have d: "distinct hashes"
    and s: "set hashes = set (map fst (vertices ?g))"
    and p: "\<forall>(a, b) \<in> set (edges ?g). precedes a b hashes"
    by (simp_all add: topological_order_def list_all_iff)
  have o: "\<forall>(a, b) \<in> set (edges ?g).
        \<exists>i j va vb before between after.
          i < j \<and> Vertex ?g a = Some va \<and> Vertex ?g b = Some vb \<and>
          concat (map ?F (enumerate 0 vs)) =
            before @ vertexLines (i + 1) va @ between @ vertexLines (j + 1) vb @ after"
  proof (rule ballI)
    fix e
    assume e: "e \<in> set (edges ?g)"
    obtain a b where ab: "e = (a, b)" by (cases e)
    from e ab p have "precedes a b hashes" by auto
    from precedes_split [OF this] obtain xs ys zs
      where h: "hashes = xs @ a # ys @ b # zs"
      by blast
    let ?i = "length xs"
    let ?j = "Suc (length xs + length ys)"
    have c: "concat (map ?F (enumerate 0 vs)) =
        concat (map ?F (enumerate 0 (map ?V xs)))
          @ vertexLines (?i + 1) (?V a)
          @ concat (map ?F (enumerate (Suc ?i) (map ?V ys)))
          @ vertexLines (?j + 1) (?V b)
          @ concat (map ?F (enumerate (Suc ?j) (map ?V zs)))"
      by (simp add: vs_def h enumerate_append_eq)
    have l: "?i < ?j" by simp
    from h have ia: "a \<in> set hashes" and ib: "b \<in> set hashes" by simp_all
    have va: "Vertex ?g a = Some (?V a)" by (rule found [OF ia])
    have vb: "Vertex ?g b = Some (?V b)" by (rule found [OF ib])
    have "\<exists>i j va vb before between after.
          i < j \<and> Vertex ?g a = Some va \<and> Vertex ?g b = Some vb \<and>
          concat (map ?F (enumerate 0 vs)) =
            before @ vertexLines (i + 1) va @ between @ vertexLines (j + 1) vb @ after"
      by (intro exI conjI) (rule l, rule va, rule vb, rule c)
    then show "case e of (a, b) \<Rightarrow>
        \<exists>i j va vb before between after.
          i < j \<and> Vertex ?g a = Some va \<and> Vertex ?g b = Some vb \<and>
          concat (map ?F (enumerate 0 vs)) =
            before @ vertexLines (i + 1) va @ between @ vertexLines (j + 1) vb @ after"
      unfolding ab prod.case .
  qed
  have l: "inclusion_loop 0 hashes w = printf (concat (map ?F (enumerate 0 vs))) w"
    by (rule inclusion_loop_eq [OF m])
  show ?thesis
    by (intro exI [of _ hashes] exI [of _ vs] conjI) (rule r, rule d, rule s, rule p, rule m, rule l, rule o)
qed

theorem inclusion_loop_topological_witness:
  "acyclic (set (edges (taskfileGraph (start_world example_graph example_doc))))
   \<and> TopologicalSort_spec (taskfileGraph (start_world example_graph example_doc))
        (Inr [''root'', ''lib''])
   \<and> (\<exists>hashes vs.
         (Inr [''root'', ''lib''] :: string + string list) = Inr hashes \<and>
         distinct hashes \<and>
         set hashes = set (map fst (vertices (taskfileGraph (start_world example_graph example_doc)))) \<and>
         (\<forall>(a, b) \<in> set (edges (taskfileGraph (start_world example_graph example_doc))). precedes a b hashes) \<and>
         map (Vertex (taskfileGraph (start_world example_graph example_doc))) hashes = map Some vs \<and>
         inclusion_loop 0 hashes (start_world example_graph example_doc) =
           printf (concat (map (\<lambda>(i, vertex). vertexLines (i + 1) vertex) (enumerate 0 vs))) (start_world example_graph example_doc) \<and>
         (\<forall>(a, b) \<in> set (edges (taskfileGraph (start_world example_graph example_doc))).
            \<exists>i j va vb before between after.
              i < j \<and>
              Vertex (taskfileGraph (start_world example_graph example_doc)) a = Some va \<and>
              Vertex (taskfileGraph (start_world example_graph example_doc)) b = Some vb \<and>
              concat (map (\<lambda>(i, vertex). vertexLines (i + 1) vertex) (enumerate 0 vs)) =
                before @ vertexLines (i + 1) va @ between @ vertexLines (j + 1) vb @ after))
   \<and> inclusion_loop 0 [''root'', ''lib''] (start_world example_graph example_doc)
       = printf (''1. Taskfile: root\<newline>''
                 @ ''   Includes:\<newline>''
                 @ ''     - lib: ./lib\<newline>''
                 @ ''2. Taskfile: lib\<newline>'')
           (start_world example_graph example_doc)"
proof -
  have a: "acyclic (set (edges (taskfileGraph (start_world example_graph example_doc))))"
    by code_simp
  have s: "TopologicalSort_spec (taskfileGraph (start_world example_graph example_doc))
        (Inr [''root'', ''lib''])"
    by code_simp
  have e: "inclusion_loop 0 [''root'', ''lib''] (start_world example_graph example_doc)
       = printf (''1. Taskfile: root\<newline>''
                 @ ''   Includes:\<newline>''
                 @ ''     - lib: ./lib\<newline>''
                 @ ''2. Taskfile: lib\<newline>'')
           (start_world example_graph example_doc)"
    by code_simp
  note c = inclusion_loop_topological [OF a s]
  show ?thesis
    by (rule conjI [OF a conjI [OF s conjI [OF c e]]])
qed

text \<open>
  The listing does not put a document after the documents it depends on. In
  \<open>example_graph\<close> the document \<open>root\<close> includes \<open>lib\<close>, the graph has no cycle, the
  contract of the sort accepts the order \<open>root\<close>, \<open>lib\<close> and refuses the order \<open>lib\<close>,
  \<open>root\<close>, and the loop prints \<open>root\<close> at position 1, before \<open>lib\<close>, which it includes.
\<close>

theorem inclusion_loop_dependency_first_counterexample:
  "(''root'', ''lib'') \<in> set (edges (taskfileGraph (start_world example_graph example_doc)))
   \<and> acyclic (set (edges (taskfileGraph (start_world example_graph example_doc))))
   \<and> TopologicalSort_spec (taskfileGraph (start_world example_graph example_doc))
        (Inr [''root'', ''lib''])
   \<and> \<not> TopologicalSort_spec (taskfileGraph (start_world example_graph example_doc))
        (Inr [''lib'', ''root''])
   \<and> precedes ''root'' ''lib'' [''root'', ''lib'']
   \<and> \<not> precedes ''lib'' ''root'' [''root'', ''lib'']
   \<and> inclusion_loop 0 [''root'', ''lib''] (start_world example_graph example_doc)
       = printf (''1. Taskfile: root\<newline>''
                 @ ''   Includes:\<newline>''
                 @ ''     - lib: ./lib\<newline>''
                 @ ''2. Taskfile: lib\<newline>'')
           (start_world example_graph example_doc)"
  by code_simp

text \<open>
  C6. When the inclusion graph has a cycle and the sort keeps to its contract, the sort
  fails, and \<open>main\<close> stops with a panic that carries the error. Standard output then
  holds the two headings, the location and the version that were printed before the
  sort, and nothing after them.
\<close>

theorem main_cycle_panics:
  assumes "\<not> acyclic (set (edges (taskfileGraph w)))"
    and "TopologicalSort_spec (taskfileGraph w) (TopologicalSort (taskfileGraph w))"
  shows "\<exists>err.
     TopologicalSort (taskfileGraph w) = Inl err \<and>
     main TopologicalSort fuel startTask w =
       Some (Panicked (''Failed to sort graph: '' @ err),
             printf (''=== Taskfile Graph Analysis ===\<newline>''
                     @ ''Location: '' @ Location (mergedTaskfile w) @ ''\<newline>''
                     @ ''Version: '' @ Version (mergedTaskfile w) @ ''\<newline>''
                     @ ''\<newline>''
                     @ ''=== Taskfile Inclusion Graph ===\<newline>'') w)"
proof -
  from assms obtain err where "TopologicalSort (taskfileGraph w) = Inl err"
    by (cases "TopologicalSort (taskfileGraph w)") (auto simp: TopologicalSort_spec_def)
  with main_failed [where TopologicalSort = TopologicalSort and w = w, OF this]
  show ?thesis by blast
qed

theorem main_cycle_panics_witness:
  "\<not> acyclic (set (edges (taskfileGraph (start_world cyclic_graph example_doc))))
   \<and> TopologicalSort_spec (taskfileGraph (start_world cyclic_graph example_doc))
        ((\<lambda>g. Inl ''cycle'') (taskfileGraph (start_world cyclic_graph example_doc)))
   \<and> main (\<lambda>g. Inl ''cycle'') 5 ''default'' (start_world cyclic_graph example_doc) =
       Some (Panicked ''Failed to sort graph: cycle'',
             printf (''=== Taskfile Graph Analysis ===\<newline>''
                     @ ''Location: Taskfile.yaml\<newline>''
                     @ ''Version: 3\<newline>''
                     @ ''\<newline>''
                     @ ''=== Taskfile Inclusion Graph ===\<newline>'')
               (start_world cyclic_graph example_doc))"
proof -
  have a: "\<not> acyclic (set (edges (taskfileGraph (start_world cyclic_graph example_doc))))"
    by code_simp
  have s: "TopologicalSort_spec (taskfileGraph (start_world cyclic_graph example_doc))
        ((\<lambda>g. Inl ''cycle'') (taskfileGraph (start_world cyclic_graph example_doc)))"
    by code_simp
  have l: "Location (mergedTaskfile (start_world cyclic_graph example_doc)) = ''Taskfile.yaml''"
    and v: "Version (mergedTaskfile (start_world cyclic_graph example_doc)) = ''3''"
    by (simp_all add: start_world_def example_doc_def)
  from main_cycle_panics [of _ "\<lambda>g. Inl ''cycle''", OF a s, of 5 "''default''"] a s
  show ?thesis
    by (simp add: l v)
qed

text \<open>
  C7. A call of \<open>showDependencyTree\<close> on a start name returns, for some number of
  allowed nested calls, exactly when no name that can be reached from the start through
  dependencies and task calls lies on a cycle of these references. The function keeps
  no record of the names it has visited: when \<open>A\<close> depends on \<open>B\<close> and \<open>B\<close> depends on
  \<open>A\<close>, a call on \<open>A\<close> does not return, however many nested calls are allowed.
\<close>

theorem showDependencyTree_returns_iff_acyclic:
  "(acyclic_from (mergedTaskfile w) start \<longrightarrow>
      (\<exists>fuel w'. showDependencyTree fuel start depth w = Some w'))
   \<and> (\<not> acyclic_from (mergedTaskfile w) start \<longrightarrow>
      (\<forall>fuel. showDependencyTree fuel start depth w = None))
   \<and> (Get (mergedTaskfile w) A = Some ta \<and> B \<in> set (map Dep_Task (Deps ta)) \<and>
      Get (mergedTaskfile w) B = Some tb \<and> A \<in> set (map Dep_Task (Deps tb)) \<longrightarrow>
      (\<forall>fuel. showDependencyTree fuel A depth w = None))"
proof (intro conjI impI)
  assume "acyclic_from (mergedTaskfile w) start"
  from showDependencyTree_returns [OF this]
  obtain n where "showDependencyTree n start depth w \<noteq> None"
    by blast
  then show "\<exists>fuel w'. showDependencyTree fuel start depth w = Some w'"
    by auto
next
  assume "\<not> acyclic_from (mergedTaskfile w) start"
  then obtain x where "x \<in> reachable (mergedTaskfile w) start"
    and "(x, x) \<in> (refs (mergedTaskfile w))\<^sup>+"
    by (auto simp: acyclic_from_def)
  then show "\<forall>fuel. showDependencyTree fuel start depth w = None"
    by (auto intro: reachable_cycle_diverges)
next
  assume c: "Get (mergedTaskfile w) A = Some ta \<and> B \<in> set (map Dep_Task (Deps ta)) \<and>
      Get (mergedTaskfile w) B = Some tb \<and> A \<in> set (map Dep_Task (Deps tb))"
  then have "(A, B) \<in> refs (mergedTaskfile w)" and "(B, A) \<in> refs (mergedTaskfile w)"
    by (auto simp: refs_iff children_def)
  then have "(A, A) \<in> (refs (mergedTaskfile w))\<^sup>+"
    by (rule trancl_into_trancl2 [OF _ r_into_trancl])
  then show "\<forall>fuel. showDependencyTree fuel A depth w = None"
    by (auto intro: cycle_diverges)
qed

theorem showDependencyTree_returns_iff_acyclic_witness:
  "acyclic_from (mergedTaskfile (start_world example_graph example_doc)) ''default''
   \<and> (\<exists>fuel w'. showDependencyTree fuel ''default'' 0 (start_world example_graph example_doc)
                   = Some w')
   \<and> \<not> acyclic_from (mergedTaskfile (start_world example_graph cyclic_doc)) ''a''
   \<and> Get (mergedTaskfile (start_world example_graph cyclic_doc)) ''a''
       = Some \<lparr>Desc = [], Deps = [\<lparr>Dep_Task = ''b''\<rparr>], Cmds = []\<rparr>
   \<and> Get (mergedTaskfile (start_world example_graph cyclic_doc)) ''b''
       = Some \<lparr>Desc = [], Deps = [\<lparr>Dep_Task = ''a''\<rparr>], Cmds = []\<rparr>
   \<and> (\<forall>fuel. showDependencyTree fuel ''a'' 0 (start_world example_graph cyclic_doc) = None)"
proof -
  have a: "acyclic_from (mergedTaskfile (start_world example_graph example_doc)) ''default''"
    by code_simp
  have n: "\<not> acyclic_from (mergedTaskfile (start_world example_graph cyclic_doc)) ''a''"
    by code_simp
  have ga: "Get (mergedTaskfile (start_world example_graph cyclic_doc)) ''a''
       = Some \<lparr>Desc = [], Deps = [\<lparr>Dep_Task = ''b''\<rparr>], Cmds = []\<rparr>"
    and gb: "Get (mergedTaskfile (start_world example_graph cyclic_doc)) ''b''
       = Some \<lparr>Desc = [], Deps = [\<lparr>Dep_Task = ''a''\<rparr>], Cmds = []\<rparr>"
    by (simp_all add: Get_def start_world_def cyclic_doc_def)
  from showDependencyTree_returns_iff_acyclic
         [of "start_world example_graph example_doc" "''default''" 0]
       showDependencyTree_returns_iff_acyclic
         [of "start_world example_graph cyclic_doc" "''a''" 0]
       a n ga gb
  show ?thesis by blast
qed

text \<open>
  C8. The flat task listing appends to standard output a text that is a function of the
  tasks of the document in their order. A second run on the state that the first run
  left appends the same text again.
\<close>

theorem flatTaskLister_twice:
  "flatTaskLister w = printf (concat (map taskLines (Tasks (mergedTaskfile w)))) w
   \<and> flatTaskLister (flatTaskLister w) =
       printf (concat (map taskLines (Tasks (mergedTaskfile w)))) (flatTaskLister w)"
proof
  show "flatTaskLister w = printf (concat (map taskLines (Tasks (mergedTaskfile w)))) w"
    by (rule flatTaskLister_eq)
  have "flatTaskLister (flatTaskLister w) =
      printf (concat (map taskLines (Tasks (mergedTaskfile (flatTaskLister w))))) (flatTaskLister w)"
    by (rule flatTaskLister_eq)
  then show "flatTaskLister (flatTaskLister w) =
      printf (concat (map taskLines (Tasks (mergedTaskfile w)))) (flatTaskLister w)"
    by (simp only: flatTaskLister_frame)
qed

theorem flatTaskLister_twice_witness:
  "stdout (flatTaskLister (start_world example_graph example_doc))
     = ''Task: build\<newline>  Commands:\<newline>    - cmd: echo hi\<newline>\<newline>''
       @ ''Task: test\<newline>  Dependencies:\<newline>    - build\<newline>\<newline>''
       @ ''Task: default\<newline>  Commands:\<newline>    - task: test\<newline>\<newline>''
   \<and> stdout (flatTaskLister (flatTaskLister (start_world example_graph example_doc)))
     = (''Task: build\<newline>  Commands:\<newline>    - cmd: echo hi\<newline>\<newline>''
        @ ''Task: test\<newline>  Dependencies:\<newline>    - build\<newline>\<newline>''
        @ ''Task: default\<newline>  Commands:\<newline>    - task: test\<newline>\<newline>'')
       @ (''Task: build\<newline>  Commands:\<newline>    - cmd: echo hi\<newline>\<newline>''
        @ ''Task: test\<newline>  Dependencies:\<newline>    - build\<newline>\<newline>''
        @ ''Task: default\<newline>  Commands:\<newline>    - task: test\<newline>\<newline>'')"
proof -
  have t: "concat (map taskLines (Tasks (mergedTaskfile (start_world example_graph example_doc))))
     = ''Task: build\<newline>  Commands:\<newline>    - cmd: echo hi\<newline>\<newline>''
       @ ''Task: test\<newline>  Dependencies:\<newline>    - build\<newline>\<newline>''
       @ ''Task: default\<newline>  Commands:\<newline>    - task: test\<newline>\<newline>''"
    by code_simp
  have s: "stdout (start_world example_graph example_doc) = []"
    by (simp add: start_world_def)
  note both = flatTaskLister_twice [of "start_world example_graph example_doc", unfolded t]
  have "stdout (flatTaskLister (start_world example_graph example_doc)) =
      stdout (printf (''Task: build\<newline>  Commands:\<newline>    - cmd: echo hi\<newline>\<newline>''
       @ ''Task: test\<newline>  Dependencies:\<newline>    - build\<newline>\<newline>''
       @ ''Task: default\<newline>  Commands:\<newline>    - task: test\<newline>\<newline>'')
        (start_world example_graph example_doc))"
    by (rule arg_cong [OF both [THEN conjunct1]])
  then have first: "stdout (flatTaskLister (start_world example_graph example_doc)) =
      ''Task: build\<newline>  Commands:\<newline>    - cmd: echo hi\<newline>\<newline>''
       @ ''Task: test\<newline>  Dependencies:\<newline>    - build\<newline>\<newline>''
       @ ''Task: default\<newline>  Commands:\<newline>    - task: test\<newline>\<newline>''"
    by (simp only: printf_fields s append_Nil)
  have "stdout (flatTaskLister (flatTaskLister (start_world example_graph example_doc))) =
      stdout (printf (''Task: build\<newline>  Commands:\<newline>    - cmd: echo hi\<newline>\<newline>''
       @ ''Task: test\<newline>  Dependencies:\<newline>    - build\<newline>\<newline>''
       @ ''Task: default\<newline>  Commands:\<newline>    - task: test\<newline>\<newline>'')
        (flatTaskLister (start_world example_graph example_doc)))"
    by (rule arg_cong [OF both [THEN conjunct2]])
  then have second: "stdout (flatTaskLister (flatTaskLister (start_world example_graph example_doc))) =
      (''Task: build\<newline>  Commands:\<newline>    - cmd: echo hi\<newline>\<newline>''
        @ ''Task: test\<newline>  Dependencies:\<newline>    - build\<newline>\<newline>''
        @ ''Task: default\<newline>  Commands:\<newline>    - task: test\<newline>\<newline>'')
       @ (''Task: build\<newline>  Commands:\<newline>    - cmd: echo hi\<newline>\<newline>''
        @ ''Task: test\<newline>  Dependencies:\<newline>    - build\<newline>\<newline>''
        @ ''Task: default\<newline>  Commands:\<newline>    - task: test\<newline>\<newline>'')"
    by (simp only: printf_fields first)
  from first second show ?thesis by (rule conjI)
qed

text \<open>
  C9. The listing of the inclusion graph, the flat task listing,
  \<open>buildTaskDependencyGraph\<close>, \<open>showDependencyTree\<close> and \<open>main\<close> as a whole leave the
  merged document and the inclusion graph as they found them.
\<close>

theorem core_leaves_documents_unchanged:
  "mergedTaskfile (inclusion_loop i hashes w) = mergedTaskfile w
   \<and> taskfileGraph (inclusion_loop i hashes w) = taskfileGraph w
   \<and> mergedTaskfile (flatTaskLister w) = mergedTaskfile w
   \<and> taskfileGraph (flatTaskLister w) = taskfileGraph w
   \<and> snd (buildTaskDependencyGraph w) = w
   \<and> (\<forall>w'. showDependencyTree fuel taskName depth w = Some w' \<longrightarrow>
         mergedTaskfile w' = mergedTaskfile w \<and> taskfileGraph w' = taskfileGraph w)
   \<and> (\<forall>result w'. main TopologicalSort fuel startTask w = Some (result, w') \<longrightarrow>
         mergedTaskfile w' = mergedTaskfile w \<and> taskfileGraph w' = taskfileGraph w)"
proof (intro conjI allI impI)
  fix result w'
  assume "main TopologicalSort fuel startTask w = Some (result, w')"
  from main_prints [OF this] obtain s where "w' = printf s w" by blast
  then show "mergedTaskfile w' = mergedTaskfile w" and "taskfileGraph w' = taskfileGraph w"
    by simp_all
qed (simp_all add: buildTaskDependencyGraph_snd showDependencyTree_frame
       del: showDependencyTree.simps)

theorem core_leaves_documents_unchanged_witness:
  "showDependencyTree 3 ''default'' 0 (start_world example_graph example_doc)
     = Some (printf ''default\<newline>  test\<newline>    build\<newline>''
               (start_world example_graph example_doc))
   \<and> mergedTaskfile (printf ''default\<newline>  test\<newline>    build\<newline>''
                       (start_world example_graph example_doc)) = example_doc
   \<and> taskfileGraph (printf ''default\<newline>  test\<newline>    build\<newline>''
                       (start_world example_graph example_doc)) = example_graph
   \<and> mergedTaskfile (flatTaskLister (start_world example_graph example_doc)) = example_doc
   \<and> taskfileGraph (inclusion_loop 0 [''root'', ''lib''] (start_world example_graph example_doc))
       = example_graph"
proof -
  have e: "showDependencyTree 3 ''default'' 0 (start_world example_graph example_doc)
     = Some (printf ''default\<newline>  test\<newline>    build\<newline>''
               (start_world example_graph example_doc))"
    by code_simp
  have m: "mergedTaskfile (start_world example_graph example_doc) = example_doc"
    and g: "taskfileGraph (start_world example_graph example_doc) = example_graph"
    by (simp_all add: start_world_def)
  from core_leaves_documents_unchanged
         [of 0 "[''root'', ''lib'']" "start_world example_graph example_doc" 3 "''default''" 0]
       e m g
  show ?thesis
    by (simp del: showDependencyTree.simps)
qed

text \<open>
  C10. In the flat task listing the two tests on a command are independent: a command
  whose literal and whose task reference are both empty adds nothing to the output, and
  a command in which both are non-empty adds the \<open>cmd\<close> line followed by the \<open>task\<close>
  line. \<open>showDependencyTree\<close> goes into exactly the commands whose task reference is
  not empty, whatever their literal.
\<close>

theorem command_entry_tests_independent:
  "(Cmd_Cmd cmd = [] \<and> Cmd_Task cmd = [] \<longrightarrow> listCmd cmd w = w)
   \<and> (Cmd_Cmd cmd \<noteq> [] \<and> Cmd_Task cmd \<noteq> [] \<longrightarrow>
        listCmd cmd w =
          printf (''    - cmd: '' @ Cmd_Cmd cmd @ ''\<newline>''
                  @ ''    - task: '' @ Cmd_Task cmd @ ''\<newline>'') w)
   \<and> (Get (mergedTaskfile w) taskName = Some task \<longrightarrow>
        showDependencyTree (Suc fuel) taskName depth w =
          (case forEach (Deps task)
                  (\<lambda>dep. showDependencyTree fuel (Dep_Task dep) (depth + 1))
                  (printf (treeLine depth taskName task) w) of
             None \<Rightarrow> None
           | Some w4 \<Rightarrow>
               forEach (filter (\<lambda>cmd. Cmd_Task cmd \<noteq> []) (Cmds task))
                 (\<lambda>cmd. showDependencyTree fuel (Cmd_Task cmd) (depth + 1)) w4))"
proof (intro conjI impI)
  assume "Cmd_Cmd cmd = [] \<and> Cmd_Task cmd = []"
  then show "listCmd cmd w = w"
    by (simp add: listCmd_def)
next
  assume "Cmd_Cmd cmd \<noteq> [] \<and> Cmd_Task cmd \<noteq> []"
  then show "listCmd cmd w =
          printf (''    - cmd: '' @ Cmd_Cmd cmd @ ''\<newline>''
                  @ ''    - task: '' @ Cmd_Task cmd @ ''\<newline>'') w"
    by (simp add: listCmd_def printf_printf)
next
  assume t: "Get (mergedTaskfile w) taskName = Some task"
  have f: "filter (\<lambda>t. t \<noteq> []) (map Cmd_Task cmds) =
      map Cmd_Task (filter (\<lambda>cmd. Cmd_Task cmd \<noteq> []) cmds)" for cmds
    by (induction cmds) simp_all
  show "showDependencyTree (Suc fuel) taskName depth w =
          (case forEach (Deps task)
                  (\<lambda>dep. showDependencyTree fuel (Dep_Task dep) (depth + 1))
                  (printf (treeLine depth taskName task) w) of
             None \<Rightarrow> None
           | Some w4 \<Rightarrow>
               forEach (filter (\<lambda>cmd. Cmd_Task cmd \<noteq> []) (Cmds task))
                 (\<lambda>cmd. showDependencyTree fuel (Cmd_Task cmd) (depth + 1)) w4)"
    unfolding showDependencyTree_present [OF t] children_def forEach_append f forEach_map ..
qed

theorem command_entry_tests_independent_witness:
  "listCmd \<lparr>Cmd_Cmd = [], Cmd_Task = []\<rparr> (start_world example_graph example_doc)
     = start_world example_graph example_doc
   \<and> listCmd \<lparr>Cmd_Cmd = ''echo hi'', Cmd_Task = ''test''\<rparr> (start_world example_graph example_doc)
     = printf ''    - cmd: echo hi\<newline>    - task: test\<newline>''
         (start_world example_graph example_doc)
   \<and> showDependencyTree (Suc (Suc (Suc 0))) ''default'' 0 (start_world example_graph example_doc)
     = forEach [taskCall ''test'']
         (\<lambda>cmd. showDependencyTree (Suc (Suc 0)) (Cmd_Task cmd) 1)
         (printf ''default\<newline>'' (start_world example_graph example_doc))"
proof -
  have h: "Get (mergedTaskfile (start_world example_graph example_doc)) ''default''
     = Some \<lparr>Desc = [], Deps = [], Cmds = [taskCall ''test'']\<rparr>"
    by (simp add: Get_def start_world_def example_doc_def)
  from command_entry_tests_independent
         [of "\<lparr>Cmd_Cmd = [], Cmd_Task = []\<rparr>" "start_world example_graph example_doc"
             "''default''" "\<lparr>Desc = [], Deps = [], Cmds = [taskCall ''test'']\<rparr>" "Suc (Suc 0)" 0]
       command_entry_tests_independent
         [of "\<lparr>Cmd_Cmd = ''echo hi'', Cmd_Task = ''test''\<rparr>"
             "start_world example_graph example_doc"
             "''default''" "\<lparr>Desc = [], Deps = [], Cmds = [taskCall ''test'']\<rparr>" "Suc (Suc 0)" 0]
       h
  show ?thesis
    by (simp add: taskCall_def treeLine_def del: showDependencyTree.simps)
qed

end
